theory Spec2Isabelle
  imports Main
begin

section \<open>The nucleus entrypoint: \<^verbatim>\<open>run\<close> of cmd/nucleus/bin.go\<close>

text \<open>
  \<^verbatim>\<open>run\<close> is the callback of the root command. It loads the configuration, builds the
  logger, resolves the control-plane host, builds the pipeline and its collaborators,
  starts the pipeline and the local API server as two goroutines, and then waits for
  either an interrupt or the completion of both goroutines.

  The model is a state-passing embedding with an instrumented trace: every call that
  \<^verbatim>\<open>run\<close> makes is recorded with the source line it stands on. The part up to the
  \<^verbatim>\<open>select\<close> statement is sequential. From there on the program is concurrent, and its
  executions are the interleavings chosen by a schedule: a list of events, each of which
  lets one goroutine (or the environment) take its next step.
\<close>

subsection \<open>Standard library: \<^verbatim>\<open>strings.TrimSpace\<close>\<close>

text \<open>
  A Go string is a byte sequence; \<^verbatim>\<open>TrimSpace\<close> removes the leading and the trailing
  white space, as defined by Unicode, decoding UTF-8. A white-space code point is one of
  the six ASCII bytes below or one of the multi-byte encodings listed in
  \<open>unicodeSpace\<close> (U+0085, U+00A0, U+1680, U+2000 to U+200A, U+2028, U+2029, U+202F,
  U+205F, U+3000). A byte sequence that is not the encoding of such a code point stops
  the trimming, as an invalid sequence (decoded as U+FFFD) does in Go.
\<close>

definition asciiSpace :: "string list" where
  "asciiSpace = [[CHR 0x09], [CHR 0x0A], [CHR 0x0B], [CHR 0x0C], [CHR 0x0D], [CHR 0x20]]"

definition unicodeSpace :: "string list" where
  "unicodeSpace =
     [[CHR 0xC2, CHR 0x85], [CHR 0xC2, CHR 0xA0], [CHR 0xE1, CHR 0x9A, CHR 0x80],
      [CHR 0xE2, CHR 0x80, CHR 0x80], [CHR 0xE2, CHR 0x80, CHR 0x81],
      [CHR 0xE2, CHR 0x80, CHR 0x82], [CHR 0xE2, CHR 0x80, CHR 0x83],
      [CHR 0xE2, CHR 0x80, CHR 0x84], [CHR 0xE2, CHR 0x80, CHR 0x85],
      [CHR 0xE2, CHR 0x80, CHR 0x86], [CHR 0xE2, CHR 0x80, CHR 0x87],
      [CHR 0xE2, CHR 0x80, CHR 0x88], [CHR 0xE2, CHR 0x80, CHR 0x89],
      [CHR 0xE2, CHR 0x80, CHR 0x8A], [CHR 0xE2, CHR 0x80, CHR 0xA8],
      [CHR 0xE2, CHR 0x80, CHR 0xA9], [CHR 0xE2, CHR 0x80, CHR 0xAF],
      [CHR 0xE2, CHR 0x81, CHR 0x9F], [CHR 0xE3, CHR 0x80, CHR 0x80]]"

fun starts_with :: "string \<Rightarrow> string \<Rightarrow> bool" where
  "starts_with [] s = True"
| "starts_with (p # ps) [] = False"
| "starts_with (p # ps) (c # cs) = (p = c \<and> starts_with ps cs)"

text \<open>Remove, from the front of \<open>s\<close>, every leading occurrence of one of the byte
  sequences \<open>ws\<close>.\<close>

function strip_leading :: "string list \<Rightarrow> string \<Rightarrow> string" where
  "strip_leading ws s =
     (case find (\<lambda>w. w \<noteq> [] \<and> starts_with w s) ws of
        None \<Rightarrow> s
      | Some w \<Rightarrow> strip_leading ws (drop (length w) s))"
  by pat_completeness auto
termination
proof (relation "measure (\<lambda>(ws, s). length s)")
  show "wf (measure (\<lambda>(ws, s). length s))" by simp
next
  fix ws :: "string list" and s w :: string
  assume "find (\<lambda>w. w \<noteq> [] \<and> starts_with w s) ws = Some w"
  then have w: "w \<noteq> []" and sw: "starts_with w s"
    by (auto simp: find_Some_iff)
  from w sw have "s \<noteq> []" by (cases w; cases s) auto
  with w show "((ws, drop (length w) s), (ws, s)) \<in> measure (\<lambda>(ws, s). length s)"
    by simp
qed

declare strip_leading.simps [simp del]

definition TrimSpace :: "string \<Rightarrow> string" where
  "TrimSpace s =
     (let spaces = asciiSpace @ unicodeSpace;
          s1 = strip_leading spaces s
      in rev (strip_leading (map rev spaces) (rev s1)))"

subsection \<open>Standard library: \<^verbatim>\<open>filepath.Join\<close> (Unix)\<close>

text \<open>
  \<^verbatim>\<open>Join\<close> drops leading empty elements, joins the rest with the separator and cleans
  the result. \<^verbatim>\<open>Clean\<close> works on the elements between separators: empty elements and
  \<^verbatim>\<open>.\<close> disappear, \<^verbatim>\<open>..\<close> removes the element before it when there is one to remove,
  is dropped at the root, and is kept at the front of a relative path.
\<close>

fun split_sep :: "string \<Rightarrow> string list" where
  "split_sep [] = [[]]"
| "split_sep (c # cs) =
     (if c = CHR ''/'' then [] # split_sep cs
      else (case split_sep cs of [] \<Rightarrow> [[c]] | x # xs \<Rightarrow> (c # x) # xs))"

fun join_sep :: "string list \<Rightarrow> string" where
  "join_sep [] = []"
| "join_sep [x] = x"
| "join_sep (x # y # zs) = x @ ''/'' @ join_sep (y # zs)"

text \<open>\<open>out\<close> holds the elements written so far, the last one first.\<close>

definition clean_elem :: "bool \<Rightarrow> string list \<Rightarrow> string \<Rightarrow> string list" where
  "clean_elem rooted out e =
     (if e = [] \<or> e = ''.'' then out
      else if e = ''..'' then
        (case out of
           [] \<Rightarrow> if rooted then [] else [''..'']
         | el # rest \<Rightarrow>
             if el \<noteq> ''..'' then rest
             else if rooted then out
             else ''..'' # out)
      else e # out)"

definition Clean :: "string \<Rightarrow> string" where
  "Clean path =
     (case path of
        [] \<Rightarrow> ''.''
      | c # cs \<Rightarrow>
          (let rooted = (c = CHR ''/'');
               body = join_sep (rev (foldl (clean_elem rooted) [] (split_sep path)))
           in if rooted then CHR ''/'' # body
              else if body = [] then ''.''
              else body))"

fun filepath_Join :: "string list \<Rightarrow> string" where
  "filepath_Join [] = []"
| "filepath_Join (e # es) =
     (if e \<noteq> [] then Clean (join_sep (e # es)) else filepath_Join es)"

subsection \<open>Configuration, collaborators and the pipeline\<close>

record log_config =
  FileLocation :: string

record config =
  LogFile :: string
  LogConfig :: log_config
  Verbose :: bool
  LocalRunner :: bool
  SynapseHost :: string

text \<open>
  The collaborators are built by constructors of other packages. An object is
  represented by the constructor that built it and the objects passed to it, which is
  all that \<^verbatim>\<open>run\<close> decides about it.
\<close>

datatype obj = Obj string "obj list"

definition cfg_obj :: obj where "cfg_obj = Obj ''cfg'' []"
definition logger_obj :: obj where "logger_obj = Obj ''logger'' []"
definition ctx_obj :: obj where "ctx_obj = Obj ''ctx'' []"

definition ts :: obj where
  "ts = Obj ''teststats.New'' [cfg_obj, logger_obj]"
definition azureClient :: obj where
  "azureClient = Obj ''azure.NewAzureBlobEnv'' [cfg_obj, logger_obj]"
definition pm :: obj where
  "pm = Obj ''payloadmanager.NewPayloadManger'' [azureClient, logger_obj, cfg_obj]"
definition secretParser :: obj where
  "secretParser = Obj ''secret.New'' [logger_obj]"
definition tcm :: obj where
  "tcm = Obj ''tasconfigmanager.NewTASConfigManager'' [logger_obj]"
definition gm :: obj where
  "gm = Obj ''gitmanager.NewGitManager'' [logger_obj]"
definition dm :: obj where
  "dm = Obj ''diffmanager.NewDiffManager'' [cfg_obj, logger_obj]"
definition execManager :: obj where
  "execManager = Obj ''command.NewExecutionManager'' [secretParser, azureClient, logger_obj]"
definition tds :: obj where
  "tds = Obj ''testdiscoveryservice.NewTestDiscoveryService'' [execManager, logger_obj]"
definition tes :: obj where
  "tes = Obj ''testexecutionservice.NewTestExecutionService''
           [execManager, azureClient, ts, logger_obj]"
definition tbs :: obj where
  "tbs = Obj ''testblocklistservice.NewTestBlockListService'' [cfg_obj, logger_obj]"
definition router :: obj where
  "router = Obj ''api.NewRouter'' [logger_obj, ts]"
definition task_obj :: obj where
  "task_obj = Obj ''task.New'' [ctx_obj, cfg_obj, logger_obj]"
definition zstd :: obj where
  "zstd = Obj ''zstd.New'' [execManager, logger_obj]"
definition cache :: obj where
  "cache = Obj ''cachemanager.New'' [zstd, azureClient, logger_obj]"
definition parserService :: obj where
  "parserService = Obj ''parser.New'' [ctx_obj, tcm, logger_obj]"
definition coverageService :: obj where
  "coverageService = Obj ''coverage.New'' [execManager, azureClient, zstd, cfg_obj, logger_obj]"

text \<open>The collaborator fields of \<^verbatim>\<open>core.Pipeline\<close> that \<^verbatim>\<open>run\<close> assigns; \<open>None\<close> is
  a nil field.\<close>

record pipeline =
  PayloadManager :: "obj option"
  TASConfigManager :: "obj option"
  GitManager :: "obj option"
  DiffManager :: "obj option"
  TestDiscoveryService :: "obj option"
  TestBlockListService :: "obj option"
  TestExecutionService :: "obj option"
  ExecutionManager :: "obj option"
  ParserService :: "obj option"
  CoverageService :: "obj option"
  TestStats :: "obj option"
  Task :: "obj option"
  CacheStore :: "obj option"
  SecretParser :: "obj option"

subsection \<open>What the environment decides\<close>

text \<open>
  The packages that \<^verbatim>\<open>run\<close> calls are parameters of the model: for each fallible
  constructor the world says whether it fails (\<open>Some\<close> of the error text) or not. The
  pipeline that \<^verbatim>\<open>core.NewPipeline\<close> returns is arbitrary, and so are the two hosts and
  the version string of package \<^verbatim>\<open>global\<close>.
\<close>

record world =
  LoadNucleusConfig :: "string + config"
  NewLogger :: "log_config \<Rightarrow> bool \<Rightarrow> string option"
  NeuronHost0 :: string
  NeuronRemoteHost :: string
  NUCLEUS_BINARY_VERSION :: string
  NewPipeline :: "string + pipeline"
  teststats_New :: "string option"
  NewAzureBlobEnv :: "string option"
  NewTestBlockListService :: "string option"
  task_New :: "string option"
  zstd_New :: "string option"
  cachemanager_New :: "string option"
  parser_New :: "string option"
  coverage_New :: "string option"

subsection \<open>The state of the process\<close>

datatype tid = Pipeline | Server

datatype level = DebugLevel | InfoLevel | ErrorLevel | FatalLevel

datatype act =
    Call string
  | NewLoggerCall log_config bool
  | Printf string
  | LogFatalf string "string list"
  | Logf level string "string list"
  | SetNeuronHost string
  | Assign string
  | WgAdd
  | Go tid
  | Notify
  | GoWaiter
  | WgDone
  | Cancel
  | CloseDone
  | SelectWait nat
  | OsExit int
  | Panic string

text \<open>How the process ended: a call of \<^verbatim>\<open>os.Exit\<close>, the return of \<^verbatim>\<open>run\<close>, or a
  panic.\<close>

datatype outcome = Exited int | Returned | Panicked

text \<open>
  Where the main goroutine stands: still in the sequential part, blocked in the outer
  \<^verbatim>\<open>select\<close> (line 199), blocked in the inner \<^verbatim>\<open>select\<close> (line 206) with the time at
  which its timer fires, or gone.
\<close>

datatype main_pc = Startup | Select1 | Select2 nat | Ended outcome

text \<open>
  Where a root goroutine stands: not started, inside its body (\<^verbatim>\<open>pl.Start\<close> or
  \<^verbatim>\<open>server.ListenAndServe\<close>), returned from it with its two deferred calls pending,
  after the deferred \<^verbatim>\<open>wg.Done()\<close>, after the deferred \<^verbatim>\<open>cancel()\<close>. The result of the
  body (nil or an error) is kept for reference only: the source discards it.
\<close>

datatype task_pc =
    NotStarted
  | Running
  | BodyReturned "string option"
  | DoneCalled "string option"
  | Finished "string option"

record state =
  trace :: "(nat \<times> act) list"
  NeuronHost :: string
  pl :: "pipeline option"
  ctx_cancelled :: bool
  wg :: int
  sig_pending :: bool
  done_closed :: bool
  pipeline_task :: task_pc
  server_task :: task_pc
  waiter_finished :: bool
  now :: nat
  main :: main_pc

definition init_state :: "world \<Rightarrow> state" where
  "init_state w =
     \<lparr>trace = [], NeuronHost = NeuronHost0 w, pl = None, ctx_cancelled = False, wg = 0,
      sig_pending = False, done_closed = False, pipeline_task = NotStarted,
      server_task = NotStarted, waiter_finished = False, now = 0, main = Startup\<rparr>"

definition emit :: "nat \<Rightarrow> act \<Rightarrow> state \<Rightarrow> state" where
  "emit l a s = s\<lparr>trace := trace s @ [(l, a)]\<rparr>"

definition os_exit :: "nat \<Rightarrow> int \<Rightarrow> state \<Rightarrow> state" where
  "os_exit l c s = (emit l (OsExit c) s)\<lparr>main := Ended (Exited c)\<rparr>"

text \<open>\<^verbatim>\<open>logger.Fatalf\<close> and the standard \<^verbatim>\<open>log.Fatalf\<close> write the message and call
  \<^verbatim>\<open>os.Exit(1)\<close>.\<close>

definition Fatalf :: "nat \<Rightarrow> string \<Rightarrow> string list \<Rightarrow> state \<Rightarrow> state" where
  "Fatalf l fmt args s = os_exit l 1 (emit l (Logf FatalLevel fmt args) s)"

definition log_Fatalf :: "nat \<Rightarrow> string \<Rightarrow> string list \<Rightarrow> state \<Rightarrow> state" where
  "log_Fatalf l fmt args s = os_exit l 1 (emit l (LogFatalf fmt args) s)"

text \<open>
  The exit status of the process. \<^verbatim>\<open>run\<close> is the \<^verbatim>\<open>Run\<close> callback of the root command
  (line 47) and has no result, so its return cannot report a failure to its caller: the
  command succeeds, and a Go process whose main function returns exits with status 0. A
  panic that nothing recovers ends a Go process with status 2.
\<close>

definition exit_code :: "outcome \<Rightarrow> int" where
  "exit_code oc = (case oc of Exited c \<Rightarrow> c | Returned \<Rightarrow> 0 | Panicked \<Rightarrow> 2)"

subsection \<open>The sequential part: lines 57 to 196\<close>

text \<open>Lines 73 to 76: the log file location is patched with the root level one.\<close>

definition patch_log_location :: "config \<Rightarrow> config" where
  "patch_log_location cfg =
     (if LogFile cfg \<noteq> []
      then cfg\<lparr>LogConfig := (LogConfig cfg)\<lparr>FileLocation :=
             filepath_Join [LogFile cfg, ''nucleus.log'']\<rparr>\<rparr>
      else cfg)"

definition fmt_bool :: "bool \<Rightarrow> string" where
  "fmt_bool b = (if b then ''true'' else ''false'')"

definition err_args :: "string option \<Rightarrow> string list" where
  "err_args err = (case err of None \<Rightarrow> [] | Some e \<Rightarrow> [e])"

text \<open>Lines 80 to 84.\<close>

definition new_logger :: "world \<Rightarrow> config \<Rightarrow> state \<Rightarrow> state" where
  "new_logger w cfg s =
     (let s1 = emit 80 (NewLoggerCall (LogConfig cfg) (Verbose cfg)) s
      in case NewLogger w (LogConfig cfg) (Verbose cfg) of
           Some e \<Rightarrow> log_Fatalf 82 ''Could not instantiate logger %s'' [e] s1
         | None \<Rightarrow>
             emit 84 (Logf DebugLevel ''Running on local: %t'' [fmt_bool (LocalRunner cfg)]) s1)"

text \<open>
  Modelled from the spec: \<^verbatim>\<open>global.SetNeuronHost\<close> and the variable
  \<^verbatim>\<open>global.NeuronHost\<close> are not among the sources. The spec calls them the global
  host-selection mutable state, which switches the remote endpoint; the setter is taken
  to store its argument in the variable.
\<close>

definition set_neuron_host :: "nat \<Rightarrow> string \<Rightarrow> state \<Rightarrow> state" where
  "set_neuron_host l h s = (emit l (SetNeuronHost h) s)\<lparr>NeuronHost := h\<rparr>"

text \<open>Lines 86 to 93.\<close>

definition resolve_host :: "world \<Rightarrow> config \<Rightarrow> state \<Rightarrow> state" where
  "resolve_host w cfg s =
     (if LocalRunner cfg then
        (let s1 = emit 87 (Logf InfoLevel
                     ''Local runner detected , changing IP from: %s to: %s''
                     [NeuronHost s, SynapseHost cfg]) s;
             s2 = set_neuron_host 88 (TrimSpace (SynapseHost cfg)) s1
         in emit 90 (Logf InfoLevel ''change neuron host to %s'' [NeuronHost s2]) s2)
      else set_neuron_host 92 (NeuronRemoteHost w) s)"

text \<open>Lines 94 to 99.\<close>

definition new_pipeline :: "world \<Rightarrow> state \<Rightarrow> state" where
  "new_pipeline w s =
     (let s1 = emit 94 (Call ''core.NewPipeline'') s
      in case NewPipeline w of
           Inl e \<Rightarrow>
             os_exit 98 1
               (emit 97 (Logf ErrorLevel ''Aborting ...'' [])
                 (emit 96 (Logf ErrorLevel
                    (''Unable to create the pipeline: %+v'' @ [CHR 0x0A]) [e]) s1))
         | Inr p \<Rightarrow> s1\<lparr>pl := Some p\<rparr>)"

text \<open>A constructor on line \<open>l\<close> whose error is fatal on line \<open>lf\<close>.\<close>

definition construct :: "nat \<Rightarrow> string \<Rightarrow> string option \<Rightarrow> nat \<Rightarrow> string \<Rightarrow> state \<Rightarrow> state" where
  "construct l name err lf fmt s =
     (let s1 = emit l (Call name) s
      in case err of Some e \<Rightarrow> Fatalf lf fmt [e] s1 | None \<Rightarrow> s1)"

text \<open>Lines 101 to 104.\<close>

definition new_teststats :: "world \<Rightarrow> state \<Rightarrow> state" where
  "new_teststats w =
     construct 101 ''teststats.New'' (teststats_New w)
       103 ''failed to initialize test stats service: %v''"

text \<open>Lines 105 to 111: the error of the constructor is checked twice.\<close>

definition new_azure :: "world \<Rightarrow> config \<Rightarrow> state \<Rightarrow> state" where
  "new_azure w cfg s =
     (let s1 = emit 105 (Call ''azure.NewAzureBlobEnv'') s;
          err = NewAzureBlobEnv w
      in if err \<noteq> None then
           Fatalf 107 ''failed to initialize azure blob: %v'' (err_args err) s1
         else if err \<noteq> None \<and> \<not> LocalRunner cfg then
           Fatalf 110 ''failed to initialize azure blob: %v'' (err_args err) s1
         else s1)"

text \<open>Lines 114 to 121.\<close>

definition attach_plugins :: "state \<Rightarrow> state" where
  "attach_plugins s =
     emit 121 (Call ''testexecutionservice.NewTestExecutionService'')
       (emit 120 (Call ''testdiscoveryservice.NewTestDiscoveryService'')
         (emit 119 (Call ''command.NewExecutionManager'')
           (emit 118 (Call ''diffmanager.NewDiffManager'')
             (emit 117 (Call ''gitmanager.NewGitManager'')
               (emit 116 (Call ''tasconfigmanager.NewTASConfigManager'')
                 (emit 115 (Call ''secret.New'')
                   (emit 114 (Call ''payloadmanager.NewPayloadManger'') s)))))))"

text \<open>Lines 122 to 149.\<close>

definition new_blocklist :: "world \<Rightarrow> state \<Rightarrow> state" where
  "new_blocklist w =
     construct 122 ''testblocklistservice.NewTestBlockListService''
       (NewTestBlockListService w) 124 ''failed to initialize test blocklist service: %v''"

definition new_router :: "state \<Rightarrow> state" where
  "new_router s = emit 126 (Call ''api.NewRouter'') s"

definition new_task :: "world \<Rightarrow> state \<Rightarrow> state" where
  "new_task w = construct 128 ''task.New'' (task_New w) 130 ''failed to initialize task: %v''"

definition new_zstd :: "world \<Rightarrow> state \<Rightarrow> state" where
  "new_zstd w =
     construct 133 ''zstd.New'' (zstd_New w) 135 ''failed to initialize zstd compressor: %v''"

definition new_cache :: "world \<Rightarrow> state \<Rightarrow> state" where
  "new_cache w =
     construct 137 ''cachemanager.New'' (cachemanager_New w)
       139 ''failed to initialize cache manager: %v''"

definition new_parser :: "world \<Rightarrow> state \<Rightarrow> state" where
  "new_parser w =
     construct 142 ''parser.New'' (parser_New w) 144 ''failed to initialize parser service: %v''"

definition new_coverage :: "world \<Rightarrow> state \<Rightarrow> state" where
  "new_coverage w =
     construct 146 ''coverage.New'' (coverage_New w)
       148 ''failed to initialize coverage service: %v''"

text \<open>Lines 151 to 164: the fourteen assignments to the fields of the pipeline.\<close>

definition wire :: "pipeline \<Rightarrow> pipeline" where
  "wire p =
     p\<lparr>PayloadManager := Some pm,
       TASConfigManager := Some tcm,
       GitManager := Some gm,
       DiffManager := Some dm,
       TestDiscoveryService := Some tds,
       TestBlockListService := Some tbs,
       TestExecutionService := Some tes,
       ExecutionManager := Some execManager,
       ParserService := Some parserService,
       CoverageService := Some coverageService,
       TestStats := Some ts,
       Task := Some task_obj,
       CacheStore := Some cache,
       SecretParser := Some secretParser\<rparr>"

definition assignments :: "(nat \<times> act) list" where
  "assignments =
     [(151, Assign ''PayloadManager''),
      (152, Assign ''TASConfigManager''),
      (153, Assign ''GitManager''),
      (154, Assign ''DiffManager''),
      (155, Assign ''TestDiscoveryService''),
      (156, Assign ''TestBlockListService''),
      (157, Assign ''TestExecutionService''),
      (158, Assign ''ExecutionManager''),
      (159, Assign ''ParserService''),
      (160, Assign ''CoverageService''),
      (161, Assign ''TestStats''),
      (162, Assign ''Task''),
      (163, Assign ''CacheStore''),
      (164, Assign ''SecretParser'')]"

definition wire_pipeline :: "state \<Rightarrow> state" where
  "wire_pipeline s = s\<lparr>trace := trace s @ assignments, pl := map_option wire (pl s)\<rparr>"

text \<open>
  Lines 166 to 196: the two root goroutines are started, each after its \<^verbatim>\<open>wg.Add(1)\<close>,
  the interrupt channel is registered, and the goroutine that waits for the wait group
  is started. The main goroutine then blocks in the outer \<^verbatim>\<open>select\<close>.
\<close>

definition launch :: "world \<Rightarrow> state \<Rightarrow> state" where
  "launch w s =
     s\<lparr>trace := trace s @
          [(166, Logf InfoLevel ''LambdaTest Nucleus version: %s'' [NUCLEUS_BINARY_VERSION w]),
           (168, WgAdd), (169, Go Pipeline), (175, WgAdd), (176, Go Server),
           (183, Notify), (191, GoWaiter)],
       wg := wg s + 2,
       pipeline_task := Running,
       server_task := Running,
       main := Select1\<rparr>"

text \<open>The statements after the configuration is loaded, in the order of the source. A
  statement runs only when no earlier one has ended the process.\<close>

definition startup_steps :: "world \<Rightarrow> config \<Rightarrow> (state \<Rightarrow> state) list" where
  "startup_steps w cfg =
     [new_logger w cfg, resolve_host w cfg, new_pipeline w, new_teststats w,
      new_azure w cfg, attach_plugins, new_blocklist w, new_router, new_task w,
      new_zstd w, new_cache w, new_parser w, new_coverage w, wire_pipeline, launch w]"

definition run_steps :: "(state \<Rightarrow> state) list \<Rightarrow> state \<Rightarrow> state" where
  "run_steps fs s = foldl (\<lambda>s f. if main s = Startup then f s else s) s fs"

text \<open>Lines 67 to 71, and then the rest.\<close>

definition startup :: "world \<Rightarrow> state" where
  "startup w =
     (let s = emit 67 (Call ''config.LoadNucleusConfig'') (init_state w)
      in case LoadNucleusConfig w of
           Inl e \<Rightarrow> os_exit 70 1 (emit 69 (Printf (''[Error] Failed to load config: '' @ e)) s)
         | Inr cfg \<Rightarrow> run_steps (startup_steps w (patch_log_location cfg)) s)"

subsection \<open>The concurrent part: lines 168 to 218\<close>

text \<open>
  An event lets one party take its next step:
  \<^item> the body of a root goroutine returns, with nil or an error;
  \<^item> a root goroutine that has returned runs its next deferred call (\<^verbatim>\<open>wg.Done()\<close>
    first, then \<^verbatim>\<open>cancel()\<close>: deferred calls run in reverse order);
  \<^item> the goroutine of line 191 wakes up from \<^verbatim>\<open>wg.Wait()\<close>;
  \<^item> the operating system delivers an interrupt to the channel of line 182;
  \<^item> time passes (in milliseconds);
  \<^item> the main goroutine looks at its \<^verbatim>\<open>select\<close>; when both cases are ready Go takes
    one at random, and the flag says whether it is the first.
\<close>

datatype event =
    BodyReturns tid "string option"
  | Deferred tid
  | WaiterRuns
  | Interrupt
  | Elapse nat
  | MainRuns bool

definition gracefulTimeout :: nat where
  "gracefulTimeout = 5000"

definition task :: "tid \<Rightarrow> state \<Rightarrow> task_pc" where
  "task i s = (case i of Pipeline \<Rightarrow> pipeline_task s | Server \<Rightarrow> server_task s)"

definition set_task :: "tid \<Rightarrow> task_pc \<Rightarrow> state \<Rightarrow> state" where
  "set_task i pc s =
     (case i of Pipeline \<Rightarrow> s\<lparr>pipeline_task := pc\<rparr> | Server \<Rightarrow> s\<lparr>server_task := pc\<rparr>)"

definition done_line :: "tid \<Rightarrow> nat" where
  "done_line i = (case i of Pipeline \<Rightarrow> 171 | Server \<Rightarrow> 178)"

definition cancel_line :: "tid \<Rightarrow> nat" where
  "cancel_line i = (case i of Pipeline \<Rightarrow> 170 | Server \<Rightarrow> 177)"

definition body_returns :: "tid \<Rightarrow> string option \<Rightarrow> state \<Rightarrow> state" where
  "body_returns i r s = (if task i s = Running then set_task i (BodyReturned r) s else s)"

text \<open>\<^verbatim>\<open>wg.Done()\<close> panics when the counter would become negative.\<close>

definition deferred :: "tid \<Rightarrow> state \<Rightarrow> state" where
  "deferred i s =
     (case task i s of
        BodyReturned r \<Rightarrow>
          if wg s - 1 < 0 then
            (emit (done_line i) (Panic ''sync: negative WaitGroup counter'') s)
              \<lparr>main := Ended Panicked\<rparr>
          else set_task i (DoneCalled r) ((emit (done_line i) WgDone s)\<lparr>wg := wg s - 1\<rparr>)
      | DoneCalled r \<Rightarrow>
          set_task i (Finished r) ((emit (cancel_line i) Cancel s)\<lparr>ctx_cancelled := True\<rparr>)
      | _ \<Rightarrow> s)"

text \<open>Lines 191 to 196.\<close>

definition waiter_runs :: "state \<Rightarrow> state" where
  "waiter_runs s =
     (if \<not> waiter_finished s \<and> wg s = 0 then
        s\<lparr>trace := trace s @
             [(194, Logf DebugLevel ''main: all goroutines have finished.'' []),
              (195, CloseDone)],
          done_closed := True,
          waiter_finished := True\<rparr>
      else s)"

text \<open>
  Lines 199 to 218. In the outer \<^verbatim>\<open>select\<close> the first case receives the interrupt and
  the second one sees the closed channel. In the inner one the first case sees the closed
  channel and the second one the timer, which is created when the \<^verbatim>\<open>select\<close> is entered.
  After the inner \<^verbatim>\<open>select\<close> the function returns, which runs the deferred \<^verbatim>\<open>cancel()\<close>
  of line 59; \<^verbatim>\<open>os.Exit\<close> runs no deferred call.
\<close>

definition main_runs :: "bool \<Rightarrow> state \<Rightarrow> state" where
  "main_runs first s =
     (case main s of
        Select1 \<Rightarrow>
          if sig_pending s \<and> (\<not> done_closed s \<or> first) then
            s\<lparr>trace := trace s @
                 [(202, Logf DebugLevel
                     ''main: received C-c - attempting graceful shutdown ....'' []),
                  (204, Logf DebugLevel ''main: telling goroutines to stop'' []),
                  (205, Cancel),
                  (206, SelectWait gracefulTimeout)],
              sig_pending := False,
              ctx_cancelled := True,
              main := Select2 (now s + gracefulTimeout)\<rparr>
          else if done_closed s then os_exit 215 0 s
          else s
      | Select2 deadline \<Rightarrow>
          if done_closed s \<and> (\<not> deadline \<le> now s \<or> first) then
            s\<lparr>trace := trace s @
                 [(208, Logf DebugLevel ''Go routines exited within timeout'' []),
                  (59, Cancel)],
              ctx_cancelled := True,
              main := Ended Returned\<rparr>
          else if deadline \<le> now s then
            s\<lparr>trace := trace s @
                 [(210, Logf ErrorLevel
                     ''Graceful timeout exceeded. Brutally killing the application'' []),
                  (59, Cancel)],
              ctx_cancelled := True,
              main := Ended Returned\<rparr>
          else s
      | _ \<Rightarrow> s)"

definition alive :: "state \<Rightarrow> bool" where
  "alive s = (case main s of Select1 \<Rightarrow> True | Select2 d \<Rightarrow> True | _ \<Rightarrow> False)"

text \<open>One event. Nothing moves once the process has ended.\<close>

definition step :: "event \<Rightarrow> state \<Rightarrow> state" where
  "step e s =
     (if \<not> alive s then s
      else case e of
             BodyReturns i r \<Rightarrow> body_returns i r s
           | Deferred i \<Rightarrow> deferred i s
           | WaiterRuns \<Rightarrow> waiter_runs s
           | Interrupt \<Rightarrow> s\<lparr>sig_pending := True\<rparr>
           | Elapse n \<Rightarrow> s\<lparr>now := now s + n\<rparr>
           | MainRuns first \<Rightarrow> main_runs first s)"

definition exec :: "event list \<Rightarrow> state \<Rightarrow> state" where
  "exec evs s = foldl (\<lambda>s e. step e s) s evs"

text \<open>The process under a world and a schedule.\<close>

definition run :: "world \<Rightarrow> event list \<Rightarrow> state" where
  "run w evs = exec evs (startup w)"


subsection \<open>What is observed of a run\<close>

text \<open>The exit status of the process, once it has ended.\<close>

definition exit_status :: "state \<Rightarrow> int option" where
  "exit_status s = (case main s of Ended oc \<Rightarrow> Some (exit_code oc) | _ \<Rightarrow> None)"

text \<open>What the body of a root goroutine returned, once it has returned.\<close>

definition body_result :: "task_pc \<Rightarrow> string option option" where
  "body_result pc =
     (case pc of BodyReturned r \<Rightarrow> Some r | DoneCalled r \<Rightarrow> Some r | Finished r \<Rightarrow> Some r
      | _ \<Rightarrow> None)"

text \<open>
  The steps of the shutdown sequence of the main goroutine, as they appear in a trace:
  the \<^verbatim>\<open>cancel()\<close> of line 205, the entry into the inner \<^verbatim>\<open>select\<close> of line 206,
  which starts the wait for the two goroutines and arms the timer, and the verdict of that
  \<^verbatim>\<open>select\<close>, logged on line 208 or on line 210.
\<close>

definition shutdown_steps :: "(nat \<times> act) list \<Rightarrow> (nat \<times> act) list" where
  "shutdown_steps tr = filter (\<lambda>x. fst x = 205 \<or> fst x = 206 \<or> fst x = 208 \<or> fst x = 210) tr"

text \<open>The hosts passed to \<^verbatim>\<open>global.SetNeuronHost\<close> in a trace, in order.\<close>

definition host_writes :: "(nat \<times> act) list \<Rightarrow> string list" where
  "host_writes tr = concat (map (\<lambda>x. case snd x of SetNeuronHost h \<Rightarrow> [h] | _ \<Rightarrow> []) tr)"

text \<open>A root goroutine has run its deferred \<^verbatim>\<open>wg.Done()\<close>.\<close>

definition called_done :: "task_pc \<Rightarrow> bool" where
  "called_done pc = (case pc of DoneCalled r \<Rightarrow> True | Finished r \<Rightarrow> True | _ \<Rightarrow> False)"

text \<open>The other root goroutine.\<close>

definition sibling :: "tid \<Rightarrow> tid" where
  "sibling i = (case i of Pipeline \<Rightarrow> Server | Server \<Rightarrow> Pipeline)"

subsection \<open>Invariants of the runs\<close>

text \<open>Trace entries that belong neither to the shutdown sequence nor to line 110.\<close>

definition quiet :: "(nat \<times> act) list \<Rightarrow> bool" where
  "quiet xs \<longleftrightarrow> shutdown_steps xs = [] \<and> 110 \<notin> fst ` set xs"

text \<open>The contribution of a root goroutine to the counter of the wait group.\<close>

definition pending :: "task_pc \<Rightarrow> int" where
  "pending pc = (case pc of Running \<Rightarrow> 1 | BodyReturned r \<Rightarrow> 1 | _ \<Rightarrow> 0)"

text \<open>A root goroutine has run both of its deferred calls.\<close>

definition is_finished :: "task_pc \<Rightarrow> bool" where
  "is_finished pc = (case pc of Finished r \<Rightarrow> True | _ \<Rightarrow> False)"

text \<open>Where the main goroutine can stand once the root goroutines are started.\<close>

definition main_ok :: "main_pc \<Rightarrow> bool" where
  "main_ok m =
     (case m of Startup \<Rightarrow> False | Select1 \<Rightarrow> True | Select2 d \<Rightarrow> True
      | Ended oc \<Rightarrow> oc = Exited 0 \<or> oc = Returned)"

text \<open>
  The invariant of the concurrent part: the counter of the wait group is the number of
  root goroutines that have not yet called \<^verbatim>\<open>wg.Done()\<close>, the channel is closed only
  when the counter is zero, and a goroutine that has finished has cancelled the context.
\<close>

definition launched_inv :: "state \<Rightarrow> bool" where
  "launched_inv s \<longleftrightarrow>
     main_ok (main s) \<and>
     pipeline_task s \<noteq> NotStarted \<and> server_task s \<noteq> NotStarted \<and>
     pending (pipeline_task s) + pending (server_task s) = wg s \<and>
     (done_closed s \<longrightarrow> wg s = 0) \<and>
     (waiter_finished s \<longrightarrow> done_closed s) \<and>
     (is_finished (pipeline_task s) \<longrightarrow> ctx_cancelled s) \<and>
     (is_finished (server_task s) \<longrightarrow> ctx_cancelled s)"

text \<open>
  How the process can have ended once the root goroutines are started: the return of
  \<^verbatim>\<open>run\<close> comes after a \<^verbatim>\<open>cancel()\<close> of the main goroutine, and \<^verbatim>\<open>os.Exit(0)\<close> comes
  after the channel has been closed.
\<close>

definition ended_inv :: "state \<Rightarrow> bool" where
  "ended_inv s \<longleftrightarrow>
     (main s = Ended Returned \<longrightarrow> ctx_cancelled s) \<and>
     (main s = Ended (Exited 0) \<longrightarrow> done_closed s)"

text \<open>The shutdown steps taken so far, for each position of the main goroutine.\<close>

definition shutdown_inv :: "state \<Rightarrow> bool" where
  "shutdown_inv s \<longleftrightarrow>
     (case main s of
        Select2 d \<Rightarrow>
          shutdown_steps (trace s) = [(205, Cancel), (206, SelectWait gracefulTimeout)]
      | Ended oc \<Rightarrow>
          (case oc of
             Exited c \<Rightarrow> shutdown_steps (trace s) = []
           | Returned \<Rightarrow>
               shutdown_steps (trace s) =
                 [(205, Cancel), (206, SelectWait gracefulTimeout),
                  (208, Logf DebugLevel ''Go routines exited within timeout'' [])] \<or>
               shutdown_steps (trace s) =
                 [(205, Cancel), (206, SelectWait gracefulTimeout),
                  (210, Logf ErrorLevel
                     ''Graceful timeout exceeded. Brutally killing the application'' [])]
           | Panicked \<Rightarrow>
               shutdown_steps (trace s) = [] \<or>
               shutdown_steps (trace s) = [(205, Cancel), (206, SelectWait gracefulTimeout)])
      | _ \<Rightarrow> shutdown_steps (trace s) = [])"

text \<open>No call of the sequential part fails.\<close>

definition all_ok :: "world \<Rightarrow> config \<Rightarrow> pipeline \<Rightarrow> bool" where
  "all_ok w cfg p \<longleftrightarrow>
     LoadNucleusConfig w = Inr cfg \<and>
     NewLogger w (LogConfig (patch_log_location cfg)) (Verbose (patch_log_location cfg)) = None \<and>
     NewPipeline w = Inr p \<and> teststats_New w = None \<and> NewAzureBlobEnv w = None \<and>
     NewTestBlockListService w = None \<and> task_New w = None \<and> zstd_New w = None \<and>
     cachemanager_New w = None \<and> parser_New w = None \<and> coverage_New w = None"

text \<open>The trace entries of lines 86 to 93, of lines 94 to 146 and of lines 166 to 191, when
  nothing fails.\<close>

definition host_acts :: "world \<Rightarrow> config \<Rightarrow> (nat \<times> act) list" where
  "host_acts w cfg =
     (if LocalRunner cfg then
        [(87, Logf InfoLevel ''Local runner detected , changing IP from: %s to: %s''
                [NeuronHost0 w, SynapseHost cfg]),
         (88, SetNeuronHost (TrimSpace (SynapseHost cfg))),
         (90, Logf InfoLevel ''change neuron host to %s'' [TrimSpace (SynapseHost cfg)])]
      else [(92, SetNeuronHost (NeuronRemoteHost w))])"

definition construction_acts :: "(nat \<times> act) list" where
  "construction_acts =
     [(94, Call ''core.NewPipeline''), (101, Call ''teststats.New''),
      (105, Call ''azure.NewAzureBlobEnv''),
      (114, Call ''payloadmanager.NewPayloadManger''),
      (115, Call ''secret.New''),
      (116, Call ''tasconfigmanager.NewTASConfigManager''),
      (117, Call ''gitmanager.NewGitManager''),
      (118, Call ''diffmanager.NewDiffManager''),
      (119, Call ''command.NewExecutionManager''),
      (120, Call ''testdiscoveryservice.NewTestDiscoveryService''),
      (121, Call ''testexecutionservice.NewTestExecutionService''),
      (122, Call ''testblocklistservice.NewTestBlockListService''),
      (126, Call ''api.NewRouter''), (128, Call ''task.New''),
      (133, Call ''zstd.New''), (137, Call ''cachemanager.New''),
      (142, Call ''parser.New''), (146, Call ''coverage.New'')]"

definition launch_acts :: "world \<Rightarrow> (nat \<times> act) list" where
  "launch_acts w =
     [(166, Logf InfoLevel ''LambdaTest Nucleus version: %s'' [NUCLEUS_BINARY_VERSION w]),
      (168, WgAdd), (169, Go Pipeline), (175, WgAdd), (176, Go Server),
      (183, Notify), (191, GoWaiter)]"

subsection \<open>Concrete worlds and schedules\<close>

text \<open>A pipeline without collaborators, a configuration for a local runner, a world in
  which every call succeeds, and two worlds in which one call fails.\<close>

definition nil_pipeline :: pipeline where
  "nil_pipeline =
     \<lparr>PayloadManager = None, TASConfigManager = None, GitManager = None, DiffManager = None,
      TestDiscoveryService = None, TestBlockListService = None, TestExecutionService = None,
      ExecutionManager = None, ParserService = None, CoverageService = None, TestStats = None,
      Task = None, CacheStore = None, SecretParser = None\<rparr>"

definition cfg_local :: config where
  "cfg_local =
     \<lparr>LogFile = ''/var/log/nucleus/'', LogConfig = \<lparr>FileLocation = ''/tmp/n.log''\<rparr>,
      Verbose = False, LocalRunner = True, SynapseHost = '' 10.0.0.5 ''\<rparr>"

definition world_ok :: world where
  "world_ok =
     \<lparr>LoadNucleusConfig = Inr cfg_local, NewLogger = (\<lambda>lc v. None),
      NeuronHost0 = ''neuron.example'', NeuronRemoteHost = ''remote.example'',
      NUCLEUS_BINARY_VERSION = ''v1'', NewPipeline = Inr nil_pipeline,
      teststats_New = None, NewAzureBlobEnv = None, NewTestBlockListService = None,
      task_New = None, zstd_New = None, cachemanager_New = None, parser_New = None,
      coverage_New = None\<rparr>"

definition world_no_config :: world where
  "world_no_config = world_ok\<lparr>LoadNucleusConfig := Inl ''no config''\<rparr>"

definition world_no_azure :: world where
  "world_no_azure = world_ok\<lparr>NewAzureBlobEnv := Some ''no credentials''\<rparr>"

text \<open>
  Four schedules: an interrupt followed by 5000 ms in which no goroutine finishes; a
  pipeline whose \<^verbatim>\<open>Start\<close> returns an error, after which the server stops and the main
  goroutine sees the closed channel; both goroutines finishing without an interrupt; and
  an interrupt after which both goroutines finish within 1200 ms.
\<close>

definition timeout_schedule :: "event list" where
  "timeout_schedule = [Interrupt, MainRuns True, Elapse 5000, MainRuns True]"

definition fatal_schedule :: "event list" where
  "fatal_schedule =
     [BodyReturns Pipeline (Some ''payload fetch failed''), Deferred Pipeline,
      Deferred Pipeline, BodyReturns Server None, Deferred Server, Deferred Server,
      WaiterRuns, MainRuns True]"

definition clean_schedule :: "event list" where
  "clean_schedule =
     [BodyReturns Pipeline None, Deferred Pipeline, Deferred Pipeline,
      BodyReturns Server None, Deferred Server, Deferred Server, WaiterRuns]"

definition graceful_schedule :: "event list" where
  "graceful_schedule =
     [Interrupt, MainRuns True, BodyReturns Pipeline None, Deferred Pipeline,
      Deferred Pipeline, BodyReturns Server None, Deferred Server, Deferred Server,
      Elapse 1200, WaiterRuns]"

text \<open>
  Two more schedules: both bodies return and both goroutines run their
  \<^verbatim>\<open>wg.Done()\<close>, after which the waiting goroutine and the main goroutine run before
  either deferred \<^verbatim>\<open>cancel()\<close>; and a pipeline whose \<^verbatim>\<open>Start\<close> returns an error but
  whose goroutine runs no deferred call before an interrupt and the grace period end the
  process.
\<close>

definition unasked_schedule :: "event list" where
  "unasked_schedule =
     [BodyReturns Pipeline None, Deferred Pipeline, BodyReturns Server None,
      Deferred Server, WaiterRuns, MainRuns True]"

definition abandoned_schedule :: "event list" where
  "abandoned_schedule =
     [BodyReturns Pipeline (Some ''payload fetch failed''), Interrupt, MainRuns True,
      Elapse 5000, MainRuns True]"

section \<open>Properties of the sequential part\<close>

lemmas step_defs = new_logger_def resolve_host_def new_pipeline_def new_teststats_def new_azure_def
  attach_plugins_def new_blocklist_def new_router_def new_task_def new_zstd_def new_cache_def
  new_parser_def new_coverage_def wire_pipeline_def launch_def construct_def Fatalf_def log_Fatalf_def
  os_exit_def emit_def set_neuron_host_def err_args_def

lemma run_steps_Nil [simp]: "run_steps [] s = s"
  by (simp add: run_steps_def)

lemma run_steps_Cons [simp]:
  "run_steps (f # fs) s = run_steps fs (if main s = Startup then f s else s)"
  by (simp add: run_steps_def)

lemma run_steps_stop: "main s \<noteq> Startup \<Longrightarrow> run_steps fs s = s"
  by (induction fs) simp_all

lemma run_steps_invariant:
  assumes "P s" and "\<And>f s. f \<in> set fs \<Longrightarrow> main s = Startup \<Longrightarrow> P s \<Longrightarrow> P (f s)"
  shows "P (run_steps fs s)"
  using assms
proof (induction fs arbitrary: s)
  case Nil
  then show ?case by simp
next
  case (Cons f fs)
  have "P (if main s = Startup then f s else s)"
    using Cons.prems by simp
  then show ?case
    using Cons.IH Cons.prems(2) by simp
qed

lemma shutdown_steps_append [simp]: "shutdown_steps (xs @ ys) = shutdown_steps xs @ shutdown_steps ys"
  by (simp add: shutdown_steps_def)

lemma host_writes_append [simp]: "host_writes (xs @ ys) = host_writes xs @ host_writes ys"
  by (simp add: host_writes_def)

lemma shutdown_steps_simps [simp]:
  "shutdown_steps [] = []"
  "shutdown_steps (x # xs) = (if fst x = 205 \<or> fst x = 206 \<or> fst x = 208 \<or> fst x = 210 then x # shutdown_steps xs else shutdown_steps xs)"
  by (simp_all add: shutdown_steps_def)

lemma host_writes_simps [simp]:
  "host_writes [] = []"
  "host_writes (x # xs) = (case snd x of SetNeuronHost h \<Rightarrow> [h] | _ \<Rightarrow> []) @ host_writes xs"
  by (simp_all add: host_writes_def)

lemma startup_step_effect:
  assumes "f \<in> set (startup_steps w cfg)" and "main s = Startup"
  shows "\<exists>xs. trace (f s) = trace s @ xs \<and> quiet xs \<and>
           (main (f s) = Startup \<or> main (f s) = Select1 \<or> main (f s) = Ended (Exited 1)) \<and>
           (main (f s) = Select1 \<or>
            pipeline_task (f s) = pipeline_task s \<and> server_task (f s) = server_task s)"
  using assms
  apply (simp add: startup_steps_def)
  apply (elim disjE)
  apply (simp_all add: step_defs quiet_def Let_def assignments_def split: option.splits sum.splits)
  done

lemma later_steps_keep_host:
  assumes "f \<in> set (drop 2 (startup_steps w cfg))"
  shows "host_writes (trace (f s)) = host_writes (trace s) \<and> NeuronHost (f s) = NeuronHost s"
  using assms
  apply (simp add: startup_steps_def)
  apply (elim disjE)
  apply (simp_all add: step_defs Let_def assignments_def split: option.splits sum.splits)
  done

lemma run_steps_append: "run_steps (fs @ gs) s = run_steps gs (run_steps fs s)"
  by (induction fs arbitrary: s) simp_all

lemma quiet_Nil [simp]: "quiet []"
  by (simp add: quiet_def)

lemma quiet_append [simp]: "quiet (xs @ ys) \<longleftrightarrow> quiet xs \<and> quiet ys"
  by (auto simp: quiet_def)

lemma run_steps_effect:
  assumes "set fs \<subseteq> set (startup_steps w cfg)"
    and "main s = Select1 \<or> pipeline_task s = NotStarted \<and> server_task s = NotStarted"
  shows "\<exists>xs. trace (run_steps fs s) = trace s @ xs \<and> quiet xs \<and>
           (main (run_steps fs s) = main s \<or> main (run_steps fs s) = Startup \<or>
            main (run_steps fs s) = Select1 \<or> main (run_steps fs s) = Ended (Exited 1)) \<and>
           (main (run_steps fs s) = Select1 \<or>
            pipeline_task (run_steps fs s) = NotStarted \<and> server_task (run_steps fs s) = NotStarted)"
proof -
  let ?P = "\<lambda>t::state. \<exists>xs. trace t = trace s @ xs \<and> quiet xs \<and>
              (main t = main s \<or> main t = Startup \<or> main t = Select1 \<or> main t = Ended (Exited 1)) \<and>
              (main t = Select1 \<or> pipeline_task t = NotStarted \<and> server_task t = NotStarted)"
  show "?P (run_steps fs s)"
  proof (rule run_steps_invariant)
    show "?P s" using assms(2) by simp
  next
    fix f :: "state \<Rightarrow> state" and t :: state
    assume f: "f \<in> set fs" and t: "main t = Startup" and P: "?P t"
    from P t obtain xs where xs: "trace t = trace s @ xs" "quiet xs"
      "pipeline_task t = NotStarted \<and> server_task t = NotStarted"
      by auto
    from f assms(1) have "f \<in> set (startup_steps w cfg)" by blast
    from startup_step_effect [of f w cfg t] this t obtain ys where
      ys: "trace (f t) = trace t @ ys" "quiet ys"
        "main (f t) = Startup \<or> main (f t) = Select1 \<or> main (f t) = Ended (Exited 1)"
        "main (f t) = Select1 \<or>
           pipeline_task (f t) = pipeline_task t \<and> server_task (f t) = server_task t"
      by blast
    have "trace (f t) = trace s @ (xs @ ys)" using xs ys by simp
    moreover have "quiet (xs @ ys)" using xs ys by simp
    ultimately show "?P (f t)" using ys(3,4) xs(3) by (intro exI [of _ "xs @ ys"]) auto
  qed
qed

lemma run_steps_launch_last:
  "main (run_steps (startup_steps w cfg) s) \<noteq> Startup"
proof -
  have split: "startup_steps w cfg = butlast (startup_steps w cfg) @ [launch w]"
    by (simp add: startup_steps_def)
  have "run_steps (startup_steps w cfg) s =
          run_steps [launch w] (run_steps (butlast (startup_steps w cfg)) s)"
    by (metis split run_steps_append)
  then show ?thesis
    by (simp add: launch_def)
qed

lemma startup_effect:
  "quiet (trace (startup w)) \<and>
   (main (startup w) = Select1 \<or>
    main (startup w) = Ended (Exited 1) \<and>
    pipeline_task (startup w) = NotStarted \<and> server_task (startup w) = NotStarted)"
proof (cases "LoadNucleusConfig w")
  case (Inl e)
  then show ?thesis
    by (simp add: startup_def os_exit_def emit_def init_state_def quiet_def)
next
  case (Inr cfg)
  let ?s = "emit 67 (Call ''config.LoadNucleusConfig'') (init_state w)"
  let ?t = "run_steps (startup_steps w (patch_log_location cfg)) ?s"
  have s: "main ?s = Startup" "trace ?s = [(67, Call ''config.LoadNucleusConfig'')]"
    "pipeline_task ?s = NotStarted" "server_task ?s = NotStarted"
    by (simp_all add: emit_def init_state_def)
  from run_steps_effect [of "startup_steps w (patch_log_location cfg)" w "patch_log_location cfg" ?s] s
  obtain xs where xs: "trace ?t = trace ?s @ xs" "quiet xs"
    "main ?t = Startup \<or> main ?t = Select1 \<or> main ?t = Ended (Exited 1)"
    "main ?t = Select1 \<or> pipeline_task ?t = NotStarted \<and> server_task ?t = NotStarted"
    by auto
  have st: "startup w = ?t"
    using Inr by (simp add: startup_def)
  have "main ?t \<noteq> Startup"
    by (rule run_steps_launch_last)
  with xs s(2) show ?thesis
    unfolding st by (auto simp: quiet_def)
qed

section \<open>Properties of the concurrent part\<close>

lemma exec_Nil [simp]: "exec [] s = s"
  by (simp add: exec_def)

lemma exec_Cons [simp]: "exec (e # evs) s = exec evs (step e s)"
  by (simp add: exec_def)

lemma exec_append: "exec (evs @ evs') s = exec evs' (exec evs s)"
  by (simp add: exec_def)

lemma step_dead: "\<not> alive s \<Longrightarrow> step e s = s"
  by (simp add: step_def)

lemma exec_dead: "\<not> alive s \<Longrightarrow> exec evs s = s"
  by (induction evs) (simp_all add: step_dead)

lemma exec_invariant:
  assumes "P s" and "\<And>e s. alive s \<Longrightarrow> P s \<Longrightarrow> P (step e s)"
  shows "P (exec evs s)"
  using assms
proof (induction evs arbitrary: s)
  case Nil
  then show ?case by simp
next
  case (Cons e evs)
  have "P (step e s)"
    using Cons.prems by (cases "alive s") (simp_all add: step_dead)
  then show ?case
    using Cons.IH Cons.prems(2) by simp
qed

lemmas conc_defs = step_def body_returns_def deferred_def waiter_runs_def main_runs_def
  set_task_def task_def alive_def os_exit_def emit_def

lemma step_effect:
  "\<exists>xs. trace (step e s) = trace s @ xs \<and> 110 \<notin> fst ` set xs \<and> host_writes xs = [] \<and>
        NeuronHost (step e s) = NeuronHost s \<and> pl (step e s) = pl s"
proof (cases "alive s")
  case False
  then show ?thesis by (simp add: step_dead)
next
  case True
  show ?thesis
  proof (cases e)
    case (BodyReturns i r)
    then show ?thesis using True
      by (cases i) (simp_all add: step_def body_returns_def set_task_def)
  next
    case (Deferred i)
    then show ?thesis using True
      by (cases i; cases "task i s")
         (simp_all add: step_def deferred_def set_task_def emit_def done_line_def cancel_line_def)
  next
    case WaiterRuns
    then show ?thesis using True by (simp add: step_def waiter_runs_def)
  next
    case Interrupt
    then show ?thesis using True by (simp add: step_def)
  next
    case (Elapse n)
    then show ?thesis using True by (simp add: step_def)
  next
    case (MainRuns b)
    then show ?thesis using True
      by (cases "main s") (simp_all add: step_def main_runs_def os_exit_def emit_def)
  qed
qed

lemma exec_effect:
  "\<exists>xs. trace (exec evs s) = trace s @ xs \<and> 110 \<notin> fst ` set xs \<and> host_writes xs = [] \<and>
        NeuronHost (exec evs s) = NeuronHost s \<and> pl (exec evs s) = pl s"
proof (induction evs arbitrary: s)
  case Nil
  show ?case by simp
next
  case (Cons e evs)
  from step_effect [of e s] obtain xs where
    xs: "trace (step e s) = trace s @ xs" "110 \<notin> fst ` set xs" "host_writes xs = []"
      "NeuronHost (step e s) = NeuronHost s" "pl (step e s) = pl s"
    by blast
  from Cons.IH [of "step e s"] obtain ys where
    ys: "trace (exec evs (step e s)) = trace (step e s) @ ys" "110 \<notin> fst ` set ys"
      "host_writes ys = []" "NeuronHost (exec evs (step e s)) = NeuronHost (step e s)"
      "pl (exec evs (step e s)) = pl (step e s)"
    by blast
  have "trace (exec (e # evs) s) = trace s @ (xs @ ys)"
    using xs(1) ys(1) by simp
  moreover have "110 \<notin> fst ` set (xs @ ys)"
    using xs(2) ys(2) by auto
  moreover have "host_writes (xs @ ys) = []"
    using xs(3) ys(3) by simp
  ultimately show ?case
    using xs(4,5) ys(4,5) by (intro exI [of _ "xs @ ys"]) simp
qed

lemmas inv_defs = launched_inv_def main_ok_def pending_def is_finished_def

lemma launched_inv_step:
  assumes "launched_inv s"
  shows "launched_inv (step e s)"
proof (cases "alive s")
  case False
  then show ?thesis using assms by (simp add: step_dead)
next
  case True
  show ?thesis
  proof (cases e)
    case (BodyReturns i r)
    then show ?thesis using True assms
      by (cases i; cases "pipeline_task s"; cases "server_task s")
         (simp_all add: step_def body_returns_def set_task_def task_def inv_defs)
  next
    case (Deferred i)
    then show ?thesis using True assms
      by (cases i; cases "pipeline_task s"; cases "server_task s")
         (simp_all add: step_def deferred_def set_task_def task_def emit_def inv_defs)
  next
    case WaiterRuns
    then show ?thesis using True assms
      by (auto simp: step_def waiter_runs_def launched_inv_def)
  next
    case Interrupt
    then show ?thesis using True assms by (simp add: step_def launched_inv_def)
  next
    case (Elapse n)
    then show ?thesis using True assms by (simp add: step_def launched_inv_def)
  next
    case (MainRuns b)
    then show ?thesis using True assms
      by (cases "main s")
         (auto simp: step_def main_runs_def os_exit_def emit_def launched_inv_def main_ok_def)
  qed
qed

lemma launched_inv_exec: "launched_inv s \<Longrightarrow> launched_inv (exec evs s)"
  by (induction evs arbitrary: s) (simp_all add: launched_inv_step)

subsection \<open>The run in which nothing fails\<close>

lemma startup_ok:
  assumes "all_ok w cfg p"
  shows "startup w =
     \<lparr>trace = [(67, Call ''config.LoadNucleusConfig''),
               (80, NewLoggerCall (LogConfig (patch_log_location cfg)) (Verbose cfg)),
               (84, Logf DebugLevel ''Running on local: %t'' [fmt_bool (LocalRunner cfg)])] @
              host_acts w cfg @ construction_acts @ assignments @ launch_acts w,
      NeuronHost = (if LocalRunner cfg then TrimSpace (SynapseHost cfg) else NeuronRemoteHost w),
      pl = Some (wire p), ctx_cancelled = False, wg = 2,
      sig_pending = False, done_closed = False, pipeline_task = Running,
      server_task = Running, waiter_finished = False, now = 0, main = Select1\<rparr>"
proof -
  have v: "Verbose (patch_log_location cfg) = Verbose cfg"
    and l: "LocalRunner (patch_log_location cfg) = LocalRunner cfg"
    and h: "SynapseHost (patch_log_location cfg) = SynapseHost cfg"
    by (simp_all add: patch_log_location_def)
  show ?thesis
  proof (cases "LocalRunner cfg")
    case True
    with assms v l h show ?thesis
      apply (simp add: startup_def all_ok_def)
      apply (simp add: startup_steps_def step_defs init_state_def Let_def host_acts_def
          construction_acts_def launch_acts_def)
      done
  next
    case False
    with assms v l h show ?thesis
      apply (simp add: startup_def all_ok_def)
      apply (simp add: startup_steps_def step_defs init_state_def Let_def host_acts_def
          construction_acts_def launch_acts_def)
      done
  qed
qed

lemma main_resolve_host: "main (resolve_host w cfg s) = main s"
  by (simp add: resolve_host_def set_neuron_host_def emit_def Let_def)

lemmas fail_defs = new_logger_def new_pipeline_def new_teststats_def new_azure_def
  attach_plugins_def new_blocklist_def new_router_def new_task_def new_zstd_def new_cache_def
  new_parser_def new_coverage_def wire_pipeline_def launch_def construct_def Fatalf_def log_Fatalf_def
  os_exit_def emit_def err_args_def startup_steps_def init_state_def Let_def main_resolve_host

lemma launched_ok:
  assumes "main (startup w) = Select1"
  shows "\<exists>cfg p. all_ok w cfg p"
proof -
  obtain cfg where c0: "LoadNucleusConfig w = Inr cfg"
    using assms by (cases "LoadNucleusConfig w") (simp_all add: startup_def os_exit_def emit_def)
  let ?r = "run_steps (startup_steps w (patch_log_location cfg))
      (emit 67 (Call ''config.LoadNucleusConfig'') (init_state w))"
  from assms c0 have r: "main ?r = Select1"
    by (simp add: startup_def)
  have c1: "NewLogger w (LogConfig (patch_log_location cfg)) (Verbose (patch_log_location cfg)) = None"
  proof (cases "NewLogger w (LogConfig (patch_log_location cfg)) (Verbose (patch_log_location cfg))")
    case None
    then show ?thesis .
  next
    case (Some e)
    then have "main ?r = Ended (Exited 1)"
      by (simp add: fail_defs)
    with r show ?thesis by simp
  qed
  have "\<exists>p. NewPipeline w = Inr p"
  proof (cases "NewPipeline w")
    case (Inl e)
    with c1 have "main ?r = Ended (Exited 1)"
      by (simp add: fail_defs)
    with r show ?thesis by simp
  next
    case (Inr p)
    then show ?thesis by simp
  qed
  then obtain p where c2: "NewPipeline w = Inr p" ..
  have c3: "teststats_New w = None"
  proof (cases "teststats_New w")
    case None
    then show ?thesis .
  next
    case (Some e)
    with c1 c2 have "main ?r = Ended (Exited 1)"
      by (simp add: fail_defs)
    with r show ?thesis by simp
  qed
  have c4: "NewAzureBlobEnv w = None"
  proof (cases "NewAzureBlobEnv w")
    case None
    then show ?thesis .
  next
    case (Some e)
    with c1 c2 c3 have "main ?r = Ended (Exited 1)"
      by (simp add: fail_defs)
    with r show ?thesis by simp
  qed
  have c5: "NewTestBlockListService w = None"
  proof (cases "NewTestBlockListService w")
    case None
    then show ?thesis .
  next
    case (Some e)
    with c1 c2 c3 c4 have "main ?r = Ended (Exited 1)"
      by (simp add: fail_defs)
    with r show ?thesis by simp
  qed
  have c6: "task_New w = None"
  proof (cases "task_New w")
    case None
    then show ?thesis .
  next
    case (Some e)
    with c1 c2 c3 c4 c5 have "main ?r = Ended (Exited 1)"
      by (simp add: fail_defs)
    with r show ?thesis by simp
  qed
  have c7: "zstd_New w = None"
  proof (cases "zstd_New w")
    case None
    then show ?thesis .
  next
    case (Some e)
    with c1 c2 c3 c4 c5 c6 have "main ?r = Ended (Exited 1)"
      by (simp add: fail_defs)
    with r show ?thesis by simp
  qed
  have c8: "cachemanager_New w = None"
  proof (cases "cachemanager_New w")
    case None
    then show ?thesis .
  next
    case (Some e)
    with c1 c2 c3 c4 c5 c6 c7 have "main ?r = Ended (Exited 1)"
      by (simp add: fail_defs)
    with r show ?thesis by simp
  qed
  have c9: "parser_New w = None"
  proof (cases "parser_New w")
    case None
    then show ?thesis .
  next
    case (Some e)
    with c1 c2 c3 c4 c5 c6 c7 c8 have "main ?r = Ended (Exited 1)"
      by (simp add: fail_defs)
    with r show ?thesis by simp
  qed
  have c10: "coverage_New w = None"
  proof (cases "coverage_New w")
    case None
    then show ?thesis .
  next
    case (Some e)
    with c1 c2 c3 c4 c5 c6 c7 c8 c9 have "main ?r = Ended (Exited 1)"
      by (simp add: fail_defs)
    with r show ?thesis by simp
  qed
  show ?thesis
    using c0 c1 c2 c3 c4 c5 c6 c7 c8 c9 c10 unfolding all_ok_def by blast
qed

subsection \<open>Whole runs\<close>

lemma run_snoc: "run w (evs @ [e]) = step e (run w evs)"
  by (simp add: run_def exec_append)

lemma run_effect:
  "\<exists>xs. trace (run w evs) = trace (startup w) @ xs \<and> 110 \<notin> fst ` set xs \<and>
        host_writes xs = [] \<and> NeuronHost (run w evs) = NeuronHost (startup w) \<and>
        pl (run w evs) = pl (startup w)"
  unfolding run_def by (rule exec_effect)

lemma startup_launched_inv:
  assumes "main (startup w) = Select1"
  shows "launched_inv (startup w)" and "\<not> sig_pending (startup w)"
proof -
  from launched_ok [OF assms] obtain cfg p where "all_ok w cfg p" by blast
  from startup_ok [OF this] show "launched_inv (startup w)" and "\<not> sig_pending (startup w)"
    by (simp_all add: inv_defs)
qed

lemma run_launched_inv: "main (startup w) = Select1 \<Longrightarrow> launched_inv (run w evs)"
  unfolding run_def by (rule launched_inv_exec) (rule startup_launched_inv)

lemma run_not_launched:
  assumes "main (startup w) \<noteq> Select1"
  shows "run w evs = startup w" and "pipeline_task (startup w) = NotStarted"
    and "server_task (startup w) = NotStarted" and "main (startup w) = Ended (Exited 1)"
proof -
  from startup_effect [of w] assms
  show m: "main (startup w) = Ended (Exited 1)" and "pipeline_task (startup w) = NotStarted"
    and "server_task (startup w) = NotStarted"
    by auto
  then have "\<not> alive (startup w)" by (simp add: alive_def)
  then show "run w evs = startup w"
    unfolding run_def by (rule exec_dead)
qed

lemma started_iff_launched:
  "pipeline_task (run w evs) \<noteq> NotStarted \<longleftrightarrow> main (startup w) = Select1"
proof (cases "main (startup w) = Select1")
  case True
  from run_launched_inv [OF this, of evs] True show ?thesis
    by (simp add: launched_inv_def)
next
  case False
  from run_not_launched(1) [OF this, of evs] run_not_launched(2,3) [OF False] False
  show ?thesis by simp
qed

lemma server_started_iff_launched:
  "server_task (run w evs) \<noteq> NotStarted \<longleftrightarrow> main (startup w) = Select1"
proof (cases "main (startup w) = Select1")
  case True
  from run_launched_inv [OF this, of evs] True show ?thesis
    by (simp add: launched_inv_def)
next
  case False
  from run_not_launched(1) [OF this, of evs] run_not_launched(2,3) [OF False] False
  show ?thesis by simp
qed

lemma shutdown_inv_step:
  assumes "shutdown_inv s"
  shows "shutdown_inv (step e s)"
proof (cases "alive s")
  case False
  then show ?thesis using assms by (simp add: step_dead)
next
  case True
  show ?thesis
  proof (cases e)
    case (BodyReturns i r)
    then show ?thesis using True assms
      by (cases i; cases "main s")
         (simp_all add: step_def body_returns_def set_task_def shutdown_inv_def alive_def)
  next
    case (Deferred i)
    then show ?thesis using True assms
      by (cases i; cases "task i s"; cases "main s")
         (simp_all add: step_def deferred_def set_task_def emit_def shutdown_inv_def alive_def
            done_line_def cancel_line_def)
  next
    case WaiterRuns
    then show ?thesis using True assms
      by (cases "main s") (simp_all add: step_def waiter_runs_def shutdown_inv_def alive_def)
  next
    case Interrupt
    then show ?thesis using True assms
      by (cases "main s") (simp_all add: step_def shutdown_inv_def alive_def)
  next
    case (Elapse n)
    then show ?thesis using True assms
      by (cases "main s") (simp_all add: step_def shutdown_inv_def alive_def)
  next
    case (MainRuns b)
    then show ?thesis using True assms
      by (cases "main s")
         (simp_all add: step_def main_runs_def os_exit_def emit_def shutdown_inv_def alive_def)
  qed
qed

lemma shutdown_inv_run: "shutdown_inv (run w evs)"
proof -
  have "shutdown_inv (startup w)"
    using startup_effect [of w] by (auto simp: shutdown_inv_def quiet_def)
  then show ?thesis
    unfolding run_def by (induction evs arbitrary: w rule: rev_induct)
      (simp_all add: exec_append shutdown_inv_step)
qed

lemma no_interrupt_step:
  assumes "e \<noteq> Interrupt" and "\<not> sig_pending s"
    and "main s = Select1 \<or> main s = Ended (Exited 0) \<and> done_closed s"
    and "launched_inv s"
  shows "\<not> sig_pending (step e s) \<and>
         (main (step e s) = Select1 \<or> main (step e s) = Ended (Exited 0) \<and> done_closed (step e s))"
proof (cases "alive s")
  case False
  then show ?thesis using assms by (simp add: step_dead)
next
  case True
  with assms(3) have m: "main s = Select1" by (auto simp: alive_def)
  show ?thesis
  proof (cases e)
    case (BodyReturns i r)
    then show ?thesis using True assms(2) m
      by (cases i) (simp_all add: step_def body_returns_def set_task_def)
  next
    case (Deferred i)
    then show ?thesis using True assms(2,4) m
      by (cases i; cases "pipeline_task s"; cases "server_task s")
         (simp_all add: step_def deferred_def set_task_def task_def emit_def inv_defs)
  next
    case WaiterRuns
    then show ?thesis using True assms(2) m by (simp add: step_def waiter_runs_def)
  next
    case Interrupt
    then show ?thesis using assms(1) by simp
  next
    case (Elapse n)
    then show ?thesis using True assms(2) m by (simp add: step_def)
  next
    case (MainRuns b)
    then show ?thesis using True assms(2) m
      by (simp add: step_def main_runs_def os_exit_def emit_def)
  qed
qed

lemma no_interrupt_run:
  assumes "Interrupt \<notin> set evs" and "main (startup w) = Select1"
  shows "\<not> sig_pending (run w evs) \<and>
         (main (run w evs) = Select1 \<or>
          main (run w evs) = Ended (Exited 0) \<and> done_closed (run w evs))"
  using assms(1)
proof (induction evs rule: rev_induct)
  case Nil
  then show ?case
    using assms(2) startup_launched_inv(2) [OF assms(2)] by (simp add: run_def)
next
  case (snoc e evs)
  then have e: "e \<noteq> Interrupt" and evs: "Interrupt \<notin> set evs" by auto
  from snoc.IH [OF evs] no_interrupt_step [OF e, of "run w evs"] run_launched_inv [OF assms(2), of evs]
  show ?case
    by (simp add: run_snoc)
qed

lemma run_steps_go: "main s = Startup \<Longrightarrow> run_steps (f # fs) s = run_steps fs (f s)"
  by simp

lemma startup_unfold:
  assumes "LoadNucleusConfig w = Inr cfg"
  shows "startup w = run_steps (startup_steps w (patch_log_location cfg))
           (emit 67 (Call ''config.LoadNucleusConfig'') (init_state w))"
  using assms by (simp add: startup_def)

lemma trace_after_config:
  assumes "LoadNucleusConfig w = Inr cfg"
  shows "\<exists>xs. trace (startup w) =
           [(67, Call ''config.LoadNucleusConfig''),
            (80, NewLoggerCall (LogConfig (patch_log_location cfg)) (Verbose cfg))] @ xs"
proof -
  let ?cfg = "patch_log_location cfg"
  let ?s0 = "emit 67 (Call ''config.LoadNucleusConfig'') (init_state w)"
  let ?s1 = "new_logger w ?cfg ?s0"
  have v: "Verbose ?cfg = Verbose cfg"
    by (simp add: patch_log_location_def)
  have steps: "startup_steps w ?cfg = new_logger w ?cfg # tl (startup_steps w ?cfg)"
    by (simp add: startup_steps_def)
  have m0: "main ?s0 = Startup"
    by (simp add: emit_def init_state_def)
  have "run_steps (startup_steps w ?cfg) ?s0 = run_steps (tl (startup_steps w ?cfg)) ?s1"
    by (subst steps) (simp only: run_steps_go [OF m0])
  then have st: "startup w = run_steps (tl (startup_steps w ?cfg)) ?s1"
    using assms by (simp only: startup_unfold)
  obtain ys where ys: "trace ?s1 =
      [(67, Call ''config.LoadNucleusConfig''),
       (80, NewLoggerCall (LogConfig ?cfg) (Verbose cfg))] @ ys"
    and t1: "pipeline_task ?s1 = NotStarted" "server_task ?s1 = NotStarted"
    by (cases "NewLogger w (LogConfig ?cfg) (Verbose ?cfg)")
       (simp_all add: new_logger_def log_Fatalf_def os_exit_def emit_def init_state_def v)
  have sub: "set (tl (startup_steps w ?cfg)) \<subseteq> set (startup_steps w ?cfg)"
    by (auto simp: startup_steps_def)
  from run_steps_effect [OF sub, of ?s1] t1 obtain xs where
    "trace (run_steps (tl (startup_steps w ?cfg)) ?s1) = trace ?s1 @ xs"
    by blast
  with st ys show ?thesis by simp
qed

lemma host_after_logger:
  assumes "LoadNucleusConfig w = Inr cfg"
    and "NewLogger w (LogConfig (patch_log_location cfg)) (Verbose cfg) = None"
  shows "host_writes (trace (startup w)) =
           [if LocalRunner cfg then TrimSpace (SynapseHost cfg) else NeuronRemoteHost w] \<and>
         NeuronHost (startup w) =
           (if LocalRunner cfg then TrimSpace (SynapseHost cfg) else NeuronRemoteHost w)"
proof -
  let ?cfg = "patch_log_location cfg"
  let ?h = "if LocalRunner cfg then TrimSpace (SynapseHost cfg) else NeuronRemoteHost w"
  let ?s0 = "emit 67 (Call ''config.LoadNucleusConfig'') (init_state w)"
  let ?s1 = "new_logger w ?cfg ?s0"
  let ?s2 = "resolve_host w ?cfg ?s1"
  let ?rest = "drop 2 (startup_steps w ?cfg)"
  have v: "Verbose ?cfg = Verbose cfg" "LocalRunner ?cfg = LocalRunner cfg"
    "SynapseHost ?cfg = SynapseHost cfg"
    by (simp_all add: patch_log_location_def)
  have steps: "startup_steps w ?cfg = new_logger w ?cfg # resolve_host w ?cfg # ?rest"
    by (simp add: startup_steps_def)
  have m0: "main ?s0 = Startup"
    by (simp add: emit_def init_state_def)
  have m1: "main ?s1 = Startup" and h1: "host_writes (trace ?s1) = []"
    using assms(2) by (simp_all add: new_logger_def emit_def init_state_def v)
  have "run_steps (startup_steps w ?cfg) ?s0 = run_steps ?rest ?s2"
    by (subst steps) (simp only: run_steps_go [OF m0] run_steps_go [OF m1])
  then have st: "startup w = run_steps ?rest ?s2"
    using assms(1) by (simp only: startup_unfold)
  have s2: "host_writes (trace ?s2) = [?h] \<and> NeuronHost ?s2 = ?h"
    using h1 by (simp add: resolve_host_def set_neuron_host_def emit_def Let_def v)
  have "host_writes (trace (run_steps ?rest ?s2)) = [?h] \<and> NeuronHost (run_steps ?rest ?s2) = ?h"
  proof (rule run_steps_invariant)
    show "host_writes (trace ?s2) = [?h] \<and> NeuronHost ?s2 = ?h" by (rule s2)
  next
    fix f :: "state \<Rightarrow> state" and t :: state
    assume "f \<in> set ?rest"
      and "host_writes (trace t) = [?h] \<and> NeuronHost t = ?h"
    with later_steps_keep_host [of f w ?cfg t]
    show "host_writes (trace (f t)) = [?h] \<and> NeuronHost (f t) = ?h"
      by simp
  qed
  with st show ?thesis by simp
qed

lemma azure_failure_startup:
  assumes "LoadNucleusConfig w = Inr cfg"
    and "NewLogger w (LogConfig (patch_log_location cfg)) (Verbose cfg) = None"
    and "NewPipeline w = Inr p" and "teststats_New w = None" and "NewAzureBlobEnv w = Some e"
  shows "main (startup w) = Ended (Exited 1)"
    and "take 2 (rev (trace (startup w))) =
           [(107, OsExit 1), (107, Logf FatalLevel ''failed to initialize azure blob: %v'' [e])]"
proof -
  have v: "Verbose (patch_log_location cfg) = Verbose cfg"
    by (simp add: patch_log_location_def)
  show "main (startup w) = Ended (Exited 1)"
    using assms(2-) unfolding startup_unfold [OF assms(1)]
    by (simp add: fail_defs v)
  show "take 2 (rev (trace (startup w))) =
           [(107, OsExit 1), (107, Logf FatalLevel ''failed to initialize azure blob: %v'' [e])]"
    using assms(2-) unfolding startup_unfold [OF assms(1)]
    by (simp add: fail_defs v)
qed

section \<open>The claims\<close>

lemma task_started_launched:
  assumes "task i (run w evs) \<noteq> NotStarted"
  shows "launched_inv (run w evs)"
proof -
  have "main (startup w) = Select1"
    using assms started_iff_launched [of w evs] server_started_iff_launched [of w evs]
    by (cases i) (simp_all add: task_def)
  then show ?thesis by (rule run_launched_inv)
qed

lemma pending_nonneg: "0 \<le> pending pc"
  by (cases pc) (simp_all add: pending_def)

lemma returned_wg_pos:
  assumes "launched_inv s" and "task i s = BodyReturned r"
  shows "0 < wg s"
proof -
  from assms(1) have eq: "pending (pipeline_task s) + pending (server_task s) = wg s"
    by (simp add: launched_inv_def)
  from assms(2) have "pending (pipeline_task s) = 1 \<or> pending (server_task s) = 1"
    by (cases i) (simp_all add: task_def pending_def)
  with eq pending_nonneg [of "pipeline_task s"] pending_nonneg [of "server_task s"]
  show ?thesis by arith
qed

lemma done_closed_called_done:
  assumes "launched_inv s" and "done_closed s"
  shows "called_done (pipeline_task s) \<and> called_done (server_task s)"
  using assms
  by (cases "pipeline_task s"; cases "server_task s")
     (simp_all add: launched_inv_def pending_def called_done_def)

lemma called_done_wg:
  assumes "launched_inv s" and "called_done (pipeline_task s)" and "called_done (server_task s)"
  shows "wg s = 0"
  using assms
  by (cases "pipeline_task s"; cases "server_task s")
     (simp_all add: launched_inv_def pending_def called_done_def)

lemma ended_inv_step:
  assumes "ended_inv s"
  shows "ended_inv (step e s)"
proof (cases "alive s")
  case False
  then show ?thesis using assms by (simp add: step_dead)
next
  case True
  then have m: "main s = Select1 \<or> (\<exists>d. main s = Select2 d)"
    by (cases "main s") (simp_all add: alive_def)
  show ?thesis
  proof (cases e)
    case (BodyReturns i r)
    then show ?thesis using True m
      by (cases i) (auto simp: step_def body_returns_def set_task_def ended_inv_def)
  next
    case (Deferred i)
    then show ?thesis using True m
      by (cases i; cases "task i s")
         (auto simp: step_def deferred_def set_task_def emit_def ended_inv_def)
  next
    case WaiterRuns
    then show ?thesis using True m
      by (auto simp: step_def waiter_runs_def ended_inv_def)
  next
    case Interrupt
    then show ?thesis using True m by (auto simp: step_def ended_inv_def)
  next
    case (Elapse n)
    then show ?thesis using True m by (auto simp: step_def ended_inv_def)
  next
    case (MainRuns b)
    then show ?thesis using True m
      by (auto simp: step_def main_runs_def os_exit_def emit_def ended_inv_def split: if_splits)
  qed
qed

lemma ended_inv_run: "ended_inv (run w evs)"
proof (induction evs rule: rev_induct)
  case Nil
  from startup_effect [of w] show ?case
    by (auto simp: run_def ended_inv_def)
next
  case (snoc e evs)
  then show ?case by (simp add: run_snoc ended_inv_step)
qed

lemma task_sibling: "task (sibling i) s = (case i of Pipeline \<Rightarrow> server_task s | Server \<Rightarrow> pipeline_task s)"
  by (cases i) (simp_all add: sibling_def task_def)

text \<open>
  \<^bold>\<open>C7\<close>. If loading the configuration fails, the process prints the error and exits
  with status 1 at once: nothing else appears in the trace, so no pipeline has been
  constructed and neither root goroutine has been started, under every schedule.
\<close>

theorem config_failure_exits_first:
  assumes "LoadNucleusConfig w = Inl e"
  shows "main (run w evs) = Ended (Exited 1) \<and> exit_status (run w evs) = Some 1 \<and>
         trace (run w evs) =
           [(67, Call ''config.LoadNucleusConfig''),
            (69, Printf (''[Error] Failed to load config: '' @ e)), (70, OsExit 1)] \<and>
         pl (run w evs) = None \<and>
         pipeline_task (run w evs) = NotStarted \<and> server_task (run w evs) = NotStarted"
proof -
  have st: "startup w =
      (init_state w)\<lparr>trace := [(67, Call ''config.LoadNucleusConfig''),
            (69, Printf (''[Error] Failed to load config: '' @ e)), (70, OsExit 1)],
          main := Ended (Exited 1)\<rparr>"
    using assms by (simp add: startup_def os_exit_def emit_def init_state_def)
  then have "\<not> alive (startup w)" by (simp add: alive_def)
  then have "run w evs = startup w"
    unfolding run_def by (rule exec_dead)
  with st show ?thesis
    by (simp add: init_state_def exit_status_def exit_code_def)
qed

theorem config_failure_exits_first_witness:
  "LoadNucleusConfig world_no_config = Inl ''no config'' \<and>
   main (run world_no_config [Interrupt, MainRuns True]) = Ended (Exited 1) \<and>
   exit_status (run world_no_config [Interrupt, MainRuns True]) = Some 1 \<and>
   length (trace (run world_no_config [Interrupt, MainRuns True])) = 3 \<and>
   pl (run world_no_config [Interrupt, MainRuns True]) = None \<and>
   pipeline_task (run world_no_config [Interrupt, MainRuns True]) = NotStarted"
proof -
  have h: "LoadNucleusConfig world_no_config = Inl ''no config''"
    by (simp add: world_no_config_def)
  from config_failure_exits_first [OF h, of "[Interrupt, MainRuns True]"] h
  show ?thesis by simp
qed

text \<open>
  \<^bold>\<open>C10\<close>. When the configuration has been loaded, the second thing the process does is to
  construct the logger, and the log configuration it passes has its file location set to
  \<^verbatim>\<open>LogFile\<close> joined with \<^verbatim>\<open>nucleus.log\<close> if \<^verbatim>\<open>LogFile\<close> is not empty, and is the
  configured one unchanged if it is empty.
\<close>

theorem log_location_patched_before_logger:
  assumes "LoadNucleusConfig w = Inr cfg"
  shows "take 2 (trace (run w evs)) =
           [(67, Call ''config.LoadNucleusConfig''),
            (80, NewLoggerCall
                   (if LogFile cfg \<noteq> []
                    then (LogConfig cfg)\<lparr>FileLocation :=
                           filepath_Join [LogFile cfg, ''nucleus.log'']\<rparr>
                    else LogConfig cfg)
                   (Verbose cfg))]"
proof -
  from trace_after_config [OF assms] obtain xs where
    xs: "trace (startup w) =
           [(67, Call ''config.LoadNucleusConfig''),
            (80, NewLoggerCall (LogConfig (patch_log_location cfg)) (Verbose cfg))] @ xs"
    by blast
  from run_effect [of w evs] obtain ys where
    ys: "trace (run w evs) = trace (startup w) @ ys" by blast
  have "LogConfig (patch_log_location cfg) =
          (if LogFile cfg \<noteq> []
           then (LogConfig cfg)\<lparr>FileLocation := filepath_Join [LogFile cfg, ''nucleus.log'']\<rparr>
           else LogConfig cfg)"
    by (simp add: patch_log_location_def)
  with xs ys show ?thesis by simp
qed

theorem log_location_patched_before_logger_witness:
  "LoadNucleusConfig world_ok = Inr cfg_local \<and> LogFile cfg_local \<noteq> [] \<and>
   take 2 (trace (run world_ok [Interrupt])) =
     [(67, Call ''config.LoadNucleusConfig''),
      (80, NewLoggerCall \<lparr>FileLocation = ''/var/log/nucleus/nucleus.log''\<rparr> False)]"
proof -
  have h: "LoadNucleusConfig world_ok = Inr cfg_local"
    by (simp add: world_ok_def)
  have j: "filepath_Join [LogFile cfg_local, ''nucleus.log''] = ''/var/log/nucleus/nucleus.log''"
    by code_simp
  have l: "LogFile cfg_local \<noteq> []"
    by (simp add: cfg_local_def)
  from log_location_patched_before_logger [OF h, of "[Interrupt]"] j l
  have "take 2 (trace (run world_ok [Interrupt])) =
     [(67, Call ''config.LoadNucleusConfig''),
      (80, NewLoggerCall ((LogConfig cfg_local)\<lparr>FileLocation := ''/var/log/nucleus/nucleus.log''\<rparr>)
         (Verbose cfg_local))]"
    by simp
  then show ?thesis using h l by (simp add: cfg_local_def)
qed

text \<open>
  \<^bold>\<open>C8\<close>. When the configuration and the logger are there, every run sets the global host
  exactly once, whatever happens later and under every schedule: to the white-space
  trimmed \<^verbatim>\<open>SynapseHost\<close> when the local-runner flag is set, and to the fixed remote host
  otherwise; the host of the final state is that value.
\<close>

theorem host_resolved_once:
  assumes "LoadNucleusConfig w = Inr cfg"
    and "NewLogger w (LogConfig (patch_log_location cfg)) (Verbose cfg) = None"
  shows "host_writes (trace (run w evs)) =
           [if LocalRunner cfg then TrimSpace (SynapseHost cfg) else NeuronRemoteHost w] \<and>
         NeuronHost (run w evs) =
           (if LocalRunner cfg then TrimSpace (SynapseHost cfg) else NeuronRemoteHost w)"
proof -
  from run_effect [of w evs] obtain xs where
    "trace (run w evs) = trace (startup w) @ xs" "host_writes xs = []"
    "NeuronHost (run w evs) = NeuronHost (startup w)"
    by blast
  with host_after_logger [OF assms] show ?thesis by simp
qed

theorem host_resolved_once_witness:
  "LoadNucleusConfig world_ok = Inr cfg_local \<and>
   NewLogger world_ok (LogConfig (patch_log_location cfg_local)) (Verbose cfg_local) = None \<and>
   LocalRunner cfg_local \<and>
   host_writes (trace (run world_ok timeout_schedule)) = [''10.0.0.5''] \<and>
   NeuronHost (run world_ok timeout_schedule) = ''10.0.0.5''"
proof -
  have h: "LoadNucleusConfig world_ok = Inr cfg_local"
    and n: "NewLogger world_ok (LogConfig (patch_log_location cfg_local)) (Verbose cfg_local) = None"
    by (simp_all add: world_ok_def)
  have l: "LocalRunner cfg_local" by (simp add: cfg_local_def)
  have t: "TrimSpace (SynapseHost cfg_local) = ''10.0.0.5''" by code_simp
  from host_resolved_once [OF h n, of timeout_schedule] l t h n
  show ?thesis by simp
qed

text \<open>
  \<^bold>\<open>C9\<close>. No run ever reaches line 110, the fatal log call guarded by the second check of
  the error of the blob-store constructor. When that constructor is reached and returns an
  error, the process logs the failure on line 107 and exits with status 1, whether the
  local-runner flag is set or not.
\<close>

theorem azure_failure_is_fatal:
  "110 \<notin> fst ` set (trace (run w evs)) \<and>
   (LoadNucleusConfig w = Inr cfg \<and>
    NewLogger w (LogConfig (patch_log_location cfg)) (Verbose cfg) = None \<and>
    NewPipeline w = Inr p \<and> teststats_New w = None \<and> NewAzureBlobEnv w = Some e \<longrightarrow>
    main (run w evs) = Ended (Exited 1) \<and>
    take 2 (rev (trace (run w evs))) =
      [(107, OsExit 1), (107, Logf FatalLevel ''failed to initialize azure blob: %v'' [e])])"
proof (intro conjI impI)
  from run_effect [of w evs] obtain xs where
    "trace (run w evs) = trace (startup w) @ xs" "110 \<notin> fst ` set xs"
    by blast
  moreover from startup_effect [of w] have "110 \<notin> fst ` set (trace (startup w))"
    by (simp add: quiet_def)
  ultimately show "110 \<notin> fst ` set (trace (run w evs))"
    by auto
next
  assume a: "LoadNucleusConfig w = Inr cfg \<and>
    NewLogger w (LogConfig (patch_log_location cfg)) (Verbose cfg) = None \<and>
    NewPipeline w = Inr p \<and> teststats_New w = None \<and> NewAzureBlobEnv w = Some e"
  then have m: "main (startup w) = Ended (Exited 1)"
    and t: "take 2 (rev (trace (startup w))) =
      [(107, OsExit 1), (107, Logf FatalLevel ''failed to initialize azure blob: %v'' [e])]"
    using azure_failure_startup [of w cfg p e] by simp_all
  from m have "main (startup w) \<noteq> Select1" by simp
  from run_not_launched(1) [OF this, of evs] have r: "run w evs = startup w" .
  show "main (run w evs) = Ended (Exited 1)" using m r by simp
  show "take 2 (rev (trace (run w evs))) =
      [(107, OsExit 1), (107, Logf FatalLevel ''failed to initialize azure blob: %v'' [e])]"
    using t r by simp
qed

theorem azure_failure_is_fatal_witness:
  "LocalRunner cfg_local \<and> LoadNucleusConfig world_no_azure = Inr cfg_local \<and>
   NewAzureBlobEnv world_no_azure = Some ''no credentials'' \<and>
   110 \<notin> fst ` set (trace (run world_no_azure [])) \<and>
   main (run world_no_azure []) = Ended (Exited 1) \<and>
   take 2 (rev (trace (run world_no_azure []))) =
      [(107, OsExit 1),
       (107, Logf FatalLevel ''failed to initialize azure blob: %v'' [''no credentials''])]"
proof -
  have h: "LoadNucleusConfig world_no_azure = Inr cfg_local \<and>
    NewLogger world_no_azure (LogConfig (patch_log_location cfg_local)) (Verbose cfg_local) = None \<and>
    NewPipeline world_no_azure = Inr nil_pipeline \<and> teststats_New world_no_azure = None \<and>
    NewAzureBlobEnv world_no_azure = Some ''no credentials''"
    by (simp add: world_no_azure_def world_ok_def)
  have l: "LocalRunner cfg_local" by (simp add: cfg_local_def)
  from azure_failure_is_fatal [of world_no_azure "[]" cfg_local nil_pipeline "''no credentials''"] h l
  show ?thesis by simp
qed

text \<open>
  \<^bold>\<open>C6\<close>. In every state in which the pipeline goroutine has been started, each of the
  fourteen collaborator fields of the pipeline holds the object that \<^verbatim>\<open>run\<close> built for
  it, whatever \<^verbatim>\<open>core.NewPipeline\<close> had put there; in the trace the constructor calls
  and then the fourteen assignments come before the start of the goroutine that calls
  \<^verbatim>\<open>pl.Start\<close>.
\<close>

theorem pipeline_wired_before_start:
  assumes "pipeline_task (run w evs) \<noteq> NotStarted"
  shows "\<exists>p pre post.
           NewPipeline w = Inr p \<and>
           pl (run w evs) =
             Some (p\<lparr>PayloadManager := Some pm, TASConfigManager := Some tcm,
                     GitManager := Some gm, DiffManager := Some dm,
                     TestDiscoveryService := Some tds, TestBlockListService := Some tbs,
                     TestExecutionService := Some tes, ExecutionManager := Some execManager,
                     ParserService := Some parserService,
                     CoverageService := Some coverageService, TestStats := Some ts,
                     Task := Some task_obj, CacheStore := Some cache,
                     SecretParser := Some secretParser\<rparr>) \<and>
           trace (run w evs) =
             pre @ assignments @
             [(166, Logf InfoLevel ''LambdaTest Nucleus version: %s'' [NUCLEUS_BINARY_VERSION w]),
              (168, WgAdd), (169, Go Pipeline)] @ post \<and>
           (169, Go Pipeline) \<notin> set pre \<and> set construction_acts \<subseteq> set pre"
proof -
  from assms have "main (startup w) = Select1"
    by (simp add: started_iff_launched)
  from launched_ok [OF this] obtain cfg p where ok: "all_ok w cfg p" by blast
  note st = startup_ok [OF ok]
  from run_effect [of w evs] obtain xs where
    xs: "trace (run w evs) = trace (startup w) @ xs" "pl (run w evs) = pl (startup w)"
    by blast
  let ?pre = "[(67, Call ''config.LoadNucleusConfig''),
               (80, NewLoggerCall (LogConfig (patch_log_location cfg)) (Verbose cfg)),
               (84, Logf DebugLevel ''Running on local: %t'' [fmt_bool (LocalRunner cfg)])] @
              host_acts w cfg @ construction_acts"
  let ?post = "[(175, WgAdd), (176, Go Server), (183, Notify), (191, GoWaiter)] @ xs"
  have 1: "NewPipeline w = Inr p"
    using ok by (simp add: all_ok_def)
  have 2: "pl (run w evs) = Some (wire p)"
    using xs(2) by (simp add: st)
  have 3: "trace (run w evs) =
             ?pre @ assignments @
             [(166, Logf InfoLevel ''LambdaTest Nucleus version: %s'' [NUCLEUS_BINARY_VERSION w]),
              (168, WgAdd), (169, Go Pipeline)] @ ?post"
    using xs(1) by (simp add: st launch_acts_def)
  have 4: "(169, Go Pipeline) \<notin> set ?pre"
    by (simp add: host_acts_def construction_acts_def)
  have 5: "set construction_acts \<subseteq> set ?pre"
    by auto
  from 1 2 3 4 5 show ?thesis
    unfolding wire_def by blast
qed

theorem pipeline_wired_before_start_witness:
  "pipeline_task (run world_ok [BodyReturns Server None]) = Running \<and>
   (\<exists>q. pl (run world_ok [BodyReturns Server None]) = Some q \<and>
        PayloadManager q = Some pm \<and> SecretParser q = Some secretParser \<and>
        CacheStore q = Some cache)"
proof -
  have r: "pipeline_task (run world_ok [BodyReturns Server None]) = Running"
    by code_simp
  then have h: "pipeline_task (run world_ok [BodyReturns Server None]) \<noteq> NotStarted"
    by simp
  from pipeline_wired_before_start [OF h] obtain p where
    "pl (run world_ok [BodyReturns Server None]) =
       Some (p\<lparr>PayloadManager := Some pm, TASConfigManager := Some tcm,
               GitManager := Some gm, DiffManager := Some dm,
               TestDiscoveryService := Some tds, TestBlockListService := Some tbs,
               TestExecutionService := Some tes, ExecutionManager := Some execManager,
               ParserService := Some parserService,
               CoverageService := Some coverageService, TestStats := Some ts,
               Task := Some task_obj, CacheStore := Some cache,
               SecretParser := Some secretParser\<rparr>)"
    by blast
  then have "\<exists>q. pl (run world_ok [BodyReturns Server None]) = Some q \<and>
        PayloadManager q = Some pm \<and> SecretParser q = Some secretParser \<and>
        CacheStore q = Some cache"
    by simp
  with r show ?thesis by blast
qed

text \<open>
  \<^bold>\<open>C5\<close>. In every run the shutdown steps of the main goroutine form a prefix of the
  sequence: cancel the context, start waiting for the two goroutines with the timer of the
  grace period armed, conclude that they finished or that the grace period was exceeded.
  No step occurs without the ones before it, and none occurs twice.
\<close>

theorem shutdown_order:
  "shutdown_steps (trace (run w evs)) = [] \<or>
   shutdown_steps (trace (run w evs)) = [(205, Cancel), (206, SelectWait gracefulTimeout)] \<or>
   shutdown_steps (trace (run w evs)) =
     [(205, Cancel), (206, SelectWait gracefulTimeout),
      (208, Logf DebugLevel ''Go routines exited within timeout'' [])] \<or>
   shutdown_steps (trace (run w evs)) =
     [(205, Cancel), (206, SelectWait gracefulTimeout),
      (210, Logf ErrorLevel ''Graceful timeout exceeded. Brutally killing the application'' [])]"
proof -
  have inv: "shutdown_inv (run w evs)"
    by (rule shutdown_inv_run)
  show ?thesis
  proof (cases "main (run w evs)")
    case Startup
    with inv show ?thesis by (simp add: shutdown_inv_def)
  next
    case Select1
    with inv show ?thesis by (simp add: shutdown_inv_def)
  next
    case (Select2 d)
    with inv show ?thesis by (simp add: shutdown_inv_def)
  next
    case (Ended oc)
    with inv show ?thesis
      by (cases oc) (auto simp: shutdown_inv_def)
  qed
qed

theorem shutdown_order_witness:
  "shutdown_steps (trace (run world_ok timeout_schedule)) =
     [(205, Cancel), (206, SelectWait gracefulTimeout),
      (210, Logf ErrorLevel ''Graceful timeout exceeded. Brutally killing the application'' [])]"
proof -
  have "length (shutdown_steps (trace (run world_ok timeout_schedule))) = 3 \<and>
        last (shutdown_steps (trace (run world_ok timeout_schedule))) =
          (210, Logf ErrorLevel ''Graceful timeout exceeded. Brutally killing the application'' [])"
    by code_simp
  with shutdown_order [of world_ok timeout_schedule] show ?thesis
    by auto
qed

text \<open>
  \<^bold>\<open>C4\<close>, as stated, fails: the deferred \<^verbatim>\<open>wg.Done()\<close> of a root goroutine runs before its
  deferred \<^verbatim>\<open>cancel()\<close>. When both bodies have returned and both goroutines have called
  \<^verbatim>\<open>wg.Done()\<close>, the channel can be closed and the process can exit at line 215 before
  either \<^verbatim>\<open>cancel()\<close>: both root goroutines have finished their work and the context has
  never been cancelled.
\<close>

theorem task_end_without_cancel_counterexample:
  "task Pipeline (run world_ok unasked_schedule) = DoneCalled None \<and>
   task Server (run world_ok unasked_schedule) = DoneCalled None \<and>
   main (run world_ok unasked_schedule) = Ended (Exited 0) \<and>
   \<not> ctx_cancelled (run world_ok unasked_schedule) \<and>
   (170, Cancel) \<notin> set (trace (run world_ok unasked_schedule)) \<and>
   (177, Cancel) \<notin> set (trace (run world_ok unasked_schedule))"
  by code_simp

text \<open>
  \<^bold>\<open>C4\<close>, amended. For each of the two root goroutines and whatever its body returns (nil
  or an error): once the body has returned and as long as the sibling has not called
  \<^verbatim>\<open>wg.Done()\<close>, the process is still running or the context is already cancelled, so the
  process cannot end with the sibling unasked. As long as the process is running, the
  body's return is followed by the deferred \<^verbatim>\<open>wg.Done()\<close>, which does not panic and
  leaves the process running, and then by the deferred \<^verbatim>\<open>cancel()\<close>, after which the
  context is cancelled; a goroutine that has run both deferred calls has cancelled the
  context.
\<close>

theorem task_end_cancels_while_sibling_runs:
  "(body_result (task i (run w evs)) = Some r \<and>
    \<not> called_done (task (sibling i) (run w evs)) \<longrightarrow>
      alive (run w evs) \<or> ctx_cancelled (run w evs)) \<and>
   (task i (run w evs) = Finished r \<longrightarrow> ctx_cancelled (run w evs)) \<and>
   (alive (run w evs) \<and> task i (run w evs) = Running \<longrightarrow>
      task i (run w (evs @ [BodyReturns i r])) = BodyReturned r) \<and>
   (alive (run w evs) \<and> task i (run w evs) = BodyReturned r \<longrightarrow>
      task i (run w (evs @ [Deferred i])) = DoneCalled r \<and>
      alive (run w (evs @ [Deferred i]))) \<and>
   (alive (run w evs) \<and> task i (run w evs) = DoneCalled r \<longrightarrow>
      task i (run w (evs @ [Deferred i])) = Finished r \<and>
      ctx_cancelled (run w (evs @ [Deferred i])) \<and>
      trace (run w (evs @ [Deferred i])) = trace (run w evs) @ [(cancel_line i, Cancel)])"
proof -
  have 0: "body_result (task i (run w evs)) = Some r \<and>
    \<not> called_done (task (sibling i) (run w evs)) \<longrightarrow>
      alive (run w evs) \<or> ctx_cancelled (run w evs)"
  proof
    assume a: "body_result (task i (run w evs)) = Some r \<and>
      \<not> called_done (task (sibling i) (run w evs))"
    then have "task i (run w evs) \<noteq> NotStarted"
      by (auto simp: body_result_def)
    then have inv: "launched_inv (run w evs)"
      by (rule task_started_launched)
    have e: "ended_inv (run w evs)"
      by (rule ended_inv_run)
    show "alive (run w evs) \<or> ctx_cancelled (run w evs)"
    proof (cases "main (run w evs)")
      case Startup
      with inv show ?thesis by (simp add: launched_inv_def main_ok_def)
    next
      case Select1
      then show ?thesis by (simp add: alive_def)
    next
      case (Select2 d)
      then show ?thesis by (simp add: alive_def)
    next
      case (Ended oc)
      with inv have "oc = Exited 0 \<or> oc = Returned"
        by (simp add: launched_inv_def main_ok_def)
      then show ?thesis
      proof
        assume "oc = Exited 0"
        with Ended e have "done_closed (run w evs)"
          by (simp add: ended_inv_def)
        from done_closed_called_done [OF inv this] a have False
          by (cases i) (simp_all add: task_sibling)
        then show ?thesis ..
      next
        assume "oc = Returned"
        with Ended e show ?thesis by (simp add: ended_inv_def)
      qed
    qed
  qed
  have 1: "task i (run w evs) = Finished r \<longrightarrow> ctx_cancelled (run w evs)"
  proof
    assume f: "task i (run w evs) = Finished r"
    then have "launched_inv (run w evs)"
      by (intro task_started_launched [of i]) simp
    with f show "ctx_cancelled (run w evs)"
      by (cases i) (simp_all add: launched_inv_def is_finished_def task_def)
  qed
  have 2: "alive (run w evs) \<and> task i (run w evs) = Running \<longrightarrow>
      task i (run w (evs @ [BodyReturns i r])) = BodyReturned r"
    by (cases i) (simp_all add: run_snoc step_def body_returns_def task_def set_task_def)
  have 3: "alive (run w evs) \<and> task i (run w evs) = BodyReturned r \<longrightarrow>
      task i (run w (evs @ [Deferred i])) = DoneCalled r \<and>
      alive (run w (evs @ [Deferred i]))"
  proof
    assume a: "alive (run w evs) \<and> task i (run w evs) = BodyReturned r"
    then have "launched_inv (run w evs)"
      by (intro task_started_launched [of i]) simp
    from returned_wg_pos [OF this, of i r] a have "0 < wg (run w evs)"
      by simp
    with a show "task i (run w (evs @ [Deferred i])) = DoneCalled r \<and>
        alive (run w (evs @ [Deferred i]))"
      by (cases i)
         (simp_all add: run_snoc step_def deferred_def task_def set_task_def emit_def alive_def)
  qed
  have 4: "alive (run w evs) \<and> task i (run w evs) = DoneCalled r \<longrightarrow>
      task i (run w (evs @ [Deferred i])) = Finished r \<and>
      ctx_cancelled (run w (evs @ [Deferred i])) \<and>
      trace (run w (evs @ [Deferred i])) = trace (run w evs) @ [(cancel_line i, Cancel)]"
    by (cases i)
       (simp_all add: run_snoc step_def deferred_def task_def set_task_def emit_def)
  from 0 1 2 3 4 show ?thesis by (intro conjI)
qed

theorem task_end_cancels_while_sibling_runs_witness:
  "body_result (task Pipeline (run world_ok abandoned_schedule)) =
     Some (Some ''payload fetch failed'') \<and>
   \<not> called_done (task (sibling Pipeline) (run world_ok abandoned_schedule)) \<and>
   \<not> alive (run world_ok abandoned_schedule) \<and>
   ctx_cancelled (run world_ok abandoned_schedule) \<and>
   alive (run world_ok []) \<and> task Pipeline (run world_ok []) = Running \<and>
   task Pipeline (run world_ok [BodyReturns Pipeline (Some ''payload fetch failed'')]) =
     BodyReturned (Some ''payload fetch failed'') \<and>
   alive (run world_ok [BodyReturns Pipeline (Some ''payload fetch failed'')]) \<and>
   task Pipeline (run world_ok [BodyReturns Pipeline (Some ''payload fetch failed''),
     Deferred Pipeline]) = DoneCalled (Some ''payload fetch failed'') \<and>
   alive (run world_ok [BodyReturns Pipeline (Some ''payload fetch failed''),
     Deferred Pipeline]) \<and>
   task Pipeline (run world_ok [BodyReturns Pipeline (Some ''payload fetch failed''),
     Deferred Pipeline, Deferred Pipeline]) = Finished (Some ''payload fetch failed'') \<and>
   ctx_cancelled (run world_ok [BodyReturns Pipeline (Some ''payload fetch failed''),
     Deferred Pipeline, Deferred Pipeline])"
proof -
  let ?r = "Some ''payload fetch failed''"
  have b0: "body_result (task Pipeline (run world_ok abandoned_schedule)) = Some ?r \<and>
      \<not> called_done (task (sibling Pipeline) (run world_ok abandoned_schedule)) \<and>
      \<not> alive (run world_ok abandoned_schedule)"
    by code_simp
  from task_end_cancels_while_sibling_runs [of Pipeline world_ok abandoned_schedule ?r] b0
  have b1: "ctx_cancelled (run world_ok abandoned_schedule)"
    by blast
  have a0: "alive (run world_ok []) \<and> task Pipeline (run world_ok []) = Running"
    by code_simp
  from task_end_cancels_while_sibling_runs [of Pipeline world_ok "[]" ?r] a0
  have s1: "task Pipeline (run world_ok [BodyReturns Pipeline ?r]) = BodyReturned ?r"
    by simp
  have a1: "alive (run world_ok [BodyReturns Pipeline ?r])"
    by code_simp
  from task_end_cancels_while_sibling_runs [of Pipeline world_ok "[BodyReturns Pipeline ?r]" ?r]
    a1 s1
  have s2: "task Pipeline (run world_ok [BodyReturns Pipeline ?r, Deferred Pipeline]) = DoneCalled ?r"
    and a2: "alive (run world_ok [BodyReturns Pipeline ?r, Deferred Pipeline])"
    by simp_all
  from task_end_cancels_while_sibling_runs
    [of Pipeline world_ok "[BodyReturns Pipeline ?r, Deferred Pipeline]" ?r] a2 s2
  have s3: "task Pipeline (run world_ok [BodyReturns Pipeline ?r, Deferred Pipeline,
      Deferred Pipeline]) = Finished ?r"
    by simp
  from task_end_cancels_while_sibling_runs
    [of Pipeline world_ok "[BodyReturns Pipeline ?r, Deferred Pipeline, Deferred Pipeline]" ?r] s3
  have s4: "ctx_cancelled (run world_ok [BodyReturns Pipeline ?r, Deferred Pipeline,
      Deferred Pipeline])"
    by simp
  from b0 b1 a0 s1 a1 s2 a2 s3 s4 show ?thesis by simp
qed

text \<open>
  \<^bold>\<open>C3\<close>. In a run without an interrupt the process can only end with
  \<^verbatim>\<open>os.Exit(0)\<close>, after both root goroutines have called \<^verbatim>\<open>wg.Done()\<close>, and it does
  end so at the next step of the main goroutine once the channel is closed. After an
  interrupt, when the channel is closed before the timer of the grace period fires, the next
  step of the main goroutine logs that the goroutines exited in time and returns from
  \<^verbatim>\<open>run\<close>, which gives exit status 0. The channel is closed at the next step of the
  waiting goroutine once both root goroutines have called \<^verbatim>\<open>wg.Done()\<close>.
\<close>

theorem clean_completion_exits_zero:
  "(Interrupt \<notin> set evs \<and> pipeline_task (run w evs) \<noteq> NotStarted \<and>
    main (run w evs) = Ended oc \<longrightarrow>
      oc = Exited 0 \<and> exit_status (run w evs) = Some 0 \<and>
      called_done (pipeline_task (run w evs)) \<and> called_done (server_task (run w evs))) \<and>
   (Interrupt \<notin> set evs \<and> alive (run w evs) \<and> done_closed (run w evs) \<longrightarrow>
      main (run w (evs @ [MainRuns b])) = Ended (Exited 0) \<and>
      exit_status (run w (evs @ [MainRuns b])) = Some 0) \<and>
   (main (run w evs) = Select2 d \<and> done_closed (run w evs) \<and> now (run w evs) < d \<longrightarrow>
      main (run w (evs @ [MainRuns b])) = Ended Returned \<and>
      exit_status (run w (evs @ [MainRuns b])) = Some 0 \<and>
      trace (run w (evs @ [MainRuns b])) =
        trace (run w evs) @
        [(208, Logf DebugLevel ''Go routines exited within timeout'' []), (59, Cancel)]) \<and>
   (alive (run w evs) \<and> called_done (pipeline_task (run w evs)) \<and>
    called_done (server_task (run w evs)) \<longrightarrow>
      done_closed (run w (evs @ [WaiterRuns])))"
proof -
  have 1: "Interrupt \<notin> set evs \<and> pipeline_task (run w evs) \<noteq> NotStarted \<and>
    main (run w evs) = Ended oc \<longrightarrow>
      oc = Exited 0 \<and> exit_status (run w evs) = Some 0 \<and>
      called_done (pipeline_task (run w evs)) \<and> called_done (server_task (run w evs))"
  proof
    assume a: "Interrupt \<notin> set evs \<and> pipeline_task (run w evs) \<noteq> NotStarted \<and>
      main (run w evs) = Ended oc"
    then have l: "main (startup w) = Select1"
      by (simp add: started_iff_launched)
    from no_interrupt_run [OF _ l, of evs] a
    have oc: "oc = Exited 0" and d: "done_closed (run w evs)"
      by auto
    from done_closed_called_done [OF run_launched_inv [OF l] d] oc a
    show "oc = Exited 0 \<and> exit_status (run w evs) = Some 0 \<and>
      called_done (pipeline_task (run w evs)) \<and> called_done (server_task (run w evs))"
      by (simp add: exit_status_def exit_code_def)
  qed
  have 2: "Interrupt \<notin> set evs \<and> alive (run w evs) \<and> done_closed (run w evs) \<longrightarrow>
      main (run w (evs @ [MainRuns b])) = Ended (Exited 0) \<and>
      exit_status (run w (evs @ [MainRuns b])) = Some 0"
  proof
    assume a: "Interrupt \<notin> set evs \<and> alive (run w evs) \<and> done_closed (run w evs)"
    have l: "main (startup w) = Select1"
    proof (rule ccontr)
      assume n: "main (startup w) \<noteq> Select1"
      from run_not_launched(1) [OF n, of evs] run_not_launched(4) [OF n] a
      show False by (simp add: alive_def)
    qed
    from no_interrupt_run [OF _ l, of evs] a
    have "\<not> sig_pending (run w evs)" and "main (run w evs) = Select1"
      by (auto simp: alive_def)
    with a show "main (run w (evs @ [MainRuns b])) = Ended (Exited 0) \<and>
      exit_status (run w (evs @ [MainRuns b])) = Some 0"
      by (simp add: run_snoc step_def main_runs_def os_exit_def emit_def exit_status_def
          exit_code_def)
  qed
  have 3: "main (run w evs) = Select2 d \<and> done_closed (run w evs) \<and> now (run w evs) < d \<longrightarrow>
      main (run w (evs @ [MainRuns b])) = Ended Returned \<and>
      exit_status (run w (evs @ [MainRuns b])) = Some 0 \<and>
      trace (run w (evs @ [MainRuns b])) =
        trace (run w evs) @
        [(208, Logf DebugLevel ''Go routines exited within timeout'' []), (59, Cancel)]"
    by (simp add: run_snoc step_def alive_def main_runs_def exit_status_def exit_code_def)
  have 4: "alive (run w evs) \<and> called_done (pipeline_task (run w evs)) \<and>
    called_done (server_task (run w evs)) \<longrightarrow>
      done_closed (run w (evs @ [WaiterRuns]))"
  proof
    assume a: "alive (run w evs) \<and> called_done (pipeline_task (run w evs)) \<and>
      called_done (server_task (run w evs))"
    then have "pipeline_task (run w evs) \<noteq> NotStarted"
      by (auto simp: called_done_def)
    then have i: "launched_inv (run w evs)"
      by (simp add: started_iff_launched run_launched_inv)
    from called_done_wg [OF i] a have "wg (run w evs) = 0" by simp
    moreover from i have "waiter_finished (run w evs) \<longrightarrow> done_closed (run w evs)"
      by (simp add: launched_inv_def)
    ultimately show "done_closed (run w (evs @ [WaiterRuns]))"
      using a by (auto simp: run_snoc step_def waiter_runs_def)
  qed
  from 1 2 3 4 show ?thesis by (intro conjI)
qed

theorem clean_completion_exits_zero_witness:
  "Interrupt \<notin> set clean_schedule \<and> alive (run world_ok clean_schedule) \<and>
   done_closed (run world_ok clean_schedule) \<and>
   main (run world_ok (clean_schedule @ [MainRuns True])) = Ended (Exited 0) \<and>
   exit_status (run world_ok (clean_schedule @ [MainRuns True])) = Some 0 \<and>
   main (run world_ok graceful_schedule) = Select2 5000 \<and>
   done_closed (run world_ok graceful_schedule) \<and>
   now (run world_ok graceful_schedule) < 5000 \<and>
   main (run world_ok (graceful_schedule @ [MainRuns False])) = Ended Returned \<and>
   exit_status (run world_ok (graceful_schedule @ [MainRuns False])) = Some 0"
proof -
  have h1: "Interrupt \<notin> set clean_schedule \<and> alive (run world_ok clean_schedule) \<and>
      done_closed (run world_ok clean_schedule)"
    by code_simp
  have h2: "main (run world_ok graceful_schedule) = Select2 5000 \<and>
      done_closed (run world_ok graceful_schedule) \<and>
      now (run world_ok graceful_schedule) < 5000"
    by code_simp
  from clean_completion_exits_zero [of clean_schedule world_ok _ True] h1
  have c1: "main (run world_ok (clean_schedule @ [MainRuns True])) = Ended (Exited 0) \<and>
      exit_status (run world_ok (clean_schedule @ [MainRuns True])) = Some 0"
    by blast
  from clean_completion_exits_zero [of graceful_schedule world_ok _ False 5000] h2
  have c2: "main (run world_ok (graceful_schedule @ [MainRuns False])) = Ended Returned \<and>
      exit_status (run world_ok (graceful_schedule @ [MainRuns False])) = Some 0"
    by blast
  from h1 h2 c1 c2 show ?thesis by blast
qed

text \<open>
  \<^bold>\<open>C1\<close>, as stated, fails: after an interrupt and 5000 ms in which neither root goroutine
  finishes, the process reports that the grace period was exceeded and ends with exit
  status 0.
\<close>

theorem grace_timeout_exit_counterexample:
  "main (run world_ok timeout_schedule) = Ended Returned \<and>
   exit_status (run world_ok timeout_schedule) = Some 0 \<and>
   (210, Logf ErrorLevel ''Graceful timeout exceeded. Brutally killing the application'' [])
     \<in> set (trace (run world_ok timeout_schedule)) \<and>
   now (run world_ok timeout_schedule) = 5000 \<and>
   pipeline_task (run world_ok timeout_schedule) = Running \<and>
   server_task (run world_ok timeout_schedule) = Running"
  by code_simp

text \<open>
  \<^bold>\<open>C1\<close>, amended. When the main goroutine receives an interrupt while the channel is not
  yet closed, it cancels the shared context and waits with a timer of 5000 ms. While the
  channel is not closed and the timer has not fired it keeps waiting. Once the timer has
  fired with the channel still not closed, it reports that the grace period was exceeded
  and returns from \<^verbatim>\<open>run\<close>, leaving the root goroutines where they are; it does not
  call \<^verbatim>\<open>os.Exit\<close>, and the exit status is 0.
\<close>

theorem interrupt_grace_period:
  "(main (run w evs) = Select1 \<and> sig_pending (run w evs) \<and> \<not> done_closed (run w evs) \<longrightarrow>
      main (run w (evs @ [MainRuns b])) = Select2 (now (run w evs) + 5000) \<and>
      ctx_cancelled (run w (evs @ [MainRuns b]))) \<and>
   (main (run w evs) = Select2 d \<and> \<not> done_closed (run w evs) \<and> now (run w evs) < d \<longrightarrow>
      run w (evs @ [MainRuns b]) = run w evs) \<and>
   (main (run w evs) = Select2 d \<and> \<not> done_closed (run w evs) \<and> d \<le> now (run w evs) \<longrightarrow>
      main (run w (evs @ [MainRuns b])) = Ended Returned \<and>
      exit_status (run w (evs @ [MainRuns b])) = Some 0 \<and>
      trace (run w (evs @ [MainRuns b])) =
        trace (run w evs) @
        [(210, Logf ErrorLevel
                 ''Graceful timeout exceeded. Brutally killing the application'' []),
         (59, Cancel)] \<and>
      pipeline_task (run w (evs @ [MainRuns b])) = pipeline_task (run w evs) \<and>
      server_task (run w (evs @ [MainRuns b])) = server_task (run w evs))"
  by (simp add: run_snoc step_def alive_def main_runs_def gracefulTimeout_def
      exit_status_def exit_code_def)

theorem interrupt_grace_period_witness:
  "main (run world_ok [Interrupt]) = Select1 \<and> sig_pending (run world_ok [Interrupt]) \<and>
   \<not> done_closed (run world_ok [Interrupt]) \<and>
   main (run world_ok ([Interrupt] @ [MainRuns True])) = Select2 5000 \<and>
   ctx_cancelled (run world_ok ([Interrupt] @ [MainRuns True])) \<and>
   main (run world_ok [Interrupt, MainRuns True, Elapse 4999]) = Select2 5000 \<and>
   \<not> done_closed (run world_ok [Interrupt, MainRuns True, Elapse 4999]) \<and>
   now (run world_ok [Interrupt, MainRuns True, Elapse 4999]) < 5000 \<and>
   run world_ok ([Interrupt, MainRuns True, Elapse 4999] @ [MainRuns True]) =
     run world_ok [Interrupt, MainRuns True, Elapse 4999] \<and>
   main (run world_ok [Interrupt, MainRuns True, Elapse 5000]) = Select2 5000 \<and>
   \<not> done_closed (run world_ok [Interrupt, MainRuns True, Elapse 5000]) \<and>
   5000 \<le> now (run world_ok [Interrupt, MainRuns True, Elapse 5000]) \<and>
   main (run world_ok ([Interrupt, MainRuns True, Elapse 5000] @ [MainRuns True])) =
     Ended Returned \<and>
   exit_status (run world_ok ([Interrupt, MainRuns True, Elapse 5000] @ [MainRuns True])) =
     Some 0"
proof -
  have h1: "main (run world_ok [Interrupt]) = Select1 \<and> sig_pending (run world_ok [Interrupt]) \<and>
      \<not> done_closed (run world_ok [Interrupt]) \<and> now (run world_ok [Interrupt]) = 0"
    by code_simp
  have h2: "main (run world_ok [Interrupt, MainRuns True, Elapse 4999]) = Select2 5000 \<and>
      \<not> done_closed (run world_ok [Interrupt, MainRuns True, Elapse 4999]) \<and>
      now (run world_ok [Interrupt, MainRuns True, Elapse 4999]) < 5000"
    by code_simp
  have h3: "main (run world_ok [Interrupt, MainRuns True, Elapse 5000]) = Select2 5000 \<and>
      \<not> done_closed (run world_ok [Interrupt, MainRuns True, Elapse 5000]) \<and>
      5000 \<le> now (run world_ok [Interrupt, MainRuns True, Elapse 5000])"
    by code_simp
  from interrupt_grace_period [of world_ok "[Interrupt]" True] h1
  have c1: "main (run world_ok ([Interrupt] @ [MainRuns True])) = Select2 5000 \<and>
      ctx_cancelled (run world_ok ([Interrupt] @ [MainRuns True]))"
    by simp
  from interrupt_grace_period [of world_ok "[Interrupt, MainRuns True, Elapse 4999]" True 5000] h2
  have c2: "run world_ok ([Interrupt, MainRuns True, Elapse 4999] @ [MainRuns True]) =
      run world_ok [Interrupt, MainRuns True, Elapse 4999]"
    by blast
  from interrupt_grace_period [of world_ok "[Interrupt, MainRuns True, Elapse 5000]" True 5000] h3
  have c3: "main (run world_ok ([Interrupt, MainRuns True, Elapse 5000] @ [MainRuns True])) =
      Ended Returned \<and>
    exit_status (run world_ok ([Interrupt, MainRuns True, Elapse 5000] @ [MainRuns True])) =
      Some 0"
    by blast
  from h1 h2 h3 c1 c2 c3 show ?thesis by blast
qed

text \<open>
  \<^bold>\<open>C2\<close>, as stated, fails: when \<^verbatim>\<open>pl.Start\<close> returns an error, the server stops, and the
  main goroutine sees the closed channel, the process exits with status 0, with no forced
  termination.
\<close>

theorem start_failure_exit_counterexample:
  "pipeline_task (run world_ok fatal_schedule) = Finished (Some ''payload fetch failed'') \<and>
   main (run world_ok fatal_schedule) = Ended (Exited 0) \<and>
   exit_status (run world_ok fatal_schedule) = Some 0 \<and>
   (210, Logf ErrorLevel ''Graceful timeout exceeded. Brutally killing the application'' [])
     \<notin> set (trace (run world_ok fatal_schedule))"
  by code_simp

text \<open>
  \<^bold>\<open>C2\<close>, amended. The result of \<^verbatim>\<open>pl.Start\<close> is discarded: when it has returned an
  error and the process has ended, the process has ended by \<^verbatim>\<open>os.Exit(0)\<close> or by the
  return of \<^verbatim>\<open>run\<close>, and its exit status is 0.
\<close>

theorem start_failure_exit_status:
  assumes "body_result (pipeline_task (run w evs)) = Some (Some e)"
    and "main (run w evs) = Ended oc"
  shows "exit_status (run w evs) = Some 0 \<and> (oc = Exited 0 \<or> oc = Returned)"
proof -
  from assms(1) have "pipeline_task (run w evs) \<noteq> NotStarted"
    by (auto simp: body_result_def)
  then have "launched_inv (run w evs)"
    by (simp add: started_iff_launched run_launched_inv)
  with assms(2) have "oc = Exited 0 \<or> oc = Returned"
    by (simp add: launched_inv_def main_ok_def)
  with assms(2) show ?thesis
    by (auto simp: exit_status_def exit_code_def)
qed

theorem start_failure_exit_status_witness:
  "body_result (pipeline_task (run world_ok fatal_schedule)) =
     Some (Some ''payload fetch failed'') \<and>
   main (run world_ok fatal_schedule) = Ended (Exited 0) \<and>
   exit_status (run world_ok fatal_schedule) = Some 0"
proof -
  have h: "body_result (pipeline_task (run world_ok fatal_schedule)) =
      Some (Some ''payload fetch failed'')"
    and m: "main (run world_ok fatal_schedule) = Ended (Exited 0)"
    by code_simp+
  from start_failure_exit_status [OF h m] h m show ?thesis by simp
qed

end
